theory Spec2Isabelle
  imports Complex_Main "HOL-Library.AList"
begin

chapter \<open>The emulation engine: embedding\<close>

section \<open>Python values and the scenario storage\<close>

text \<open>
  Python floats are modelled as reals: comparisons, additions and the clamping of the engine
  are then exact. The one place where the binary rounding of a float decides an integer
  result, \<open>size_to_bytes\<close>, models the rounding of \<open>float()\<close> explicitly.
  Every reading of \<open>time.time()\<close> is an argument \<open>now\<close> of the function that reads it, and
  every draw of \<open>random.random()\<close> an argument \<open>u\<close> with \<open>0 \<le> u < 1\<close>.
\<close>

datatype py_error = ValueError | TypeError | OverflowError | KeyError | AttributeError | MixerError

text \<open>A reference to a scenario function: a static method of the class \<open>Scenarios\<close>, found
  by its name, or a callable object of the configuration.\<close>

datatype fn_ref = LibFn string | UserFn nat

datatype pyval =
    PNone
  | PBool bool
  | PFloat real
  | PFunc fn_ref
  | PDict "(string \<times> pyval) list"

type_synonym StateStorage = "string \<rightharpoonup> pyval"

definition storage_get :: "StateStorage \<Rightarrow> string \<Rightarrow> pyval \<Rightarrow> pyval" where
  "storage_get st key dflt = (case st key of None \<Rightarrow> dflt | Some v \<Rightarrow> v)"

definition storage_set :: "StateStorage \<Rightarrow> string \<Rightarrow> pyval \<Rightarrow> StateStorage" where
  "storage_set st key v = st(key \<mapsto> v)"

definition storage_clean :: "StateStorage \<Rightarrow> StateStorage" where
  "storage_clean st = Map.empty"

text \<open>What Python's arithmetic and comparisons do with a stored value: a float is itself,
  a bool is \<open>1\<close> or \<open>0\<close>, anything else raises \<open>TypeError\<close>; \<open>float(v)\<close> converts the same
  values and raises on the others.\<close>

definition as_float :: "pyval \<Rightarrow> real option" where
  "as_float v = (case v of PFloat r \<Rightarrow> Some r | PBool b \<Rightarrow> Some (if b then 1 else 0) | _ \<Rightarrow> None)"

text \<open>\<open>b == v\<close> for a bool \<open>b\<close>.\<close>

definition py_eq_bool :: "bool \<Rightarrow> pyval \<Rightarrow> bool" where
  "py_eq_bool b v = (case as_float v of Some r \<Rightarrow> r = (if b then 1 else 0) | None \<Rightarrow> False)"

text \<open>The truth value of a stored value.\<close>

definition py_truthy :: "pyval \<Rightarrow> bool" where
  "py_truthy v =
     (case v of PNone \<Rightarrow> False | PBool b \<Rightarrow> b | PFloat r \<Rightarrow> r \<noteq> 0 | PFunc f \<Rightarrow> True
      | PDict d \<Rightarrow> d \<noteq> [])"

text \<open>\<open>x % y\<close> on floats, for a positive \<open>y\<close>.\<close>

definition py_fmod :: "real \<Rightarrow> real \<Rightarrow> real" where
  "py_fmod x y = x - y * of_int \<lfloor>x / y\<rfloor>"

text \<open>Python's \<open>round(x, ndigits)\<close> on a float rounds to the nearest multiple of
  \<open>10 ^ (- ndigits)\<close>, a tie going to the even one.\<close>

definition round_half_even :: "real \<Rightarrow> int" where
  "round_half_even x =
     (let f = \<lfloor>x\<rfloor>; d = x - of_int f
      in if d < 1 / 2 then f else if d > 1 / 2 then f + 1 else if even f then f else f + 1)"

definition py_round :: "real \<Rightarrow> nat \<Rightarrow> real" where
  "py_round x ndigits = of_int (round_half_even (x * 10 ^ ndigits)) / 10 ^ ndigits"

text \<open>\<open>random.uniform(a, b)\<close> is \<open>a + (b - a) * random()\<close>.\<close>

definition uniform :: "real \<Rightarrow> real \<Rightarrow> real \<Rightarrow> real" where
  "uniform a b u = a + (b - a) * u"

section \<open>Metric configuration and context (metrics.py)\<close>

datatype MetricType = GAUGE | COUNTER | HISTOGRAM

text \<open>\<open>ttl\<close> is a float whose default is \<open>float('inf')\<close>, which the code tests for.\<close>

datatype ttl_value = Inf | Finite real

text \<open>The fields of \<open>MetricConfig\<close> but \<open>scenario\<close> and \<open>scenario_data\<close>: the scenario takes a
  context that holds the configuration, so it is kept beside the configuration, in the metric,
  already applied to its \<open>scenario_data\<close>.\<close>

record MetricConfig =
  name :: string
  metric_type :: MetricType
  value_range :: "real \<times> real"
  init_value :: "real option"
  units :: string
  start_time :: real
  ttl :: ttl_value
  update_interval :: real
  listen_events :: "string list"
  linked_metrics :: "string list"
  description :: string

record Event =
  event_name :: string
  event_data :: "(string \<times> pyval) list option"
  event_source :: "string option"

datatype MetricContext =
  MetricContext
    (ctx_data: MetricConfig)
    (ctx_value: "real option")
    (ctx_event: "Event option")
    (ctx_timestamp: real)
    (ctx_storage: StateStorage)
    (ctx_links: "(string \<times> MetricContext) list")

section \<open>Utilities (utils.py)\<close>

definition calc_percent_usage :: "MetricContext \<Rightarrow> py_error + real option" where
  "calc_percent_usage source_metric_context =
     (case ctx_value source_metric_context of
        None \<Rightarrow> Inr None
      | Some v \<Rightarrow>
          (let (min_value, max_value) = value_range (ctx_data source_metric_context) in
           if min_value \<ge> max_value then Inl ValueError
           else
             let clamped_value = max min_value (min max_value v);
                 range_size = max_value - min_value;
                 usage_ratio = (clamped_value - min_value) / range_size
             in Inr (Some (usage_ratio * 100))))"

text \<open>The clamping the specification speaks of, and a context with another value.\<close>

definition clamp :: "real \<Rightarrow> real \<Rightarrow> real \<Rightarrow> real" where
  "clamp lo hi v = (if v < lo then lo else if v > hi then hi else v)"

definition with_value :: "MetricContext \<Rightarrow> real option \<Rightarrow> MetricContext" where
  "with_value c v =
     MetricContext (ctx_data c) v (ctx_event c) (ctx_timestamp c) (ctx_storage c) (ctx_links c)"

text \<open>A gauge with the default fields of \<open>MetricConfig\<close> over a given range, and a context
  for it, used to run the functions on concrete inputs.\<close>

definition gauge_config :: "string \<Rightarrow> real \<times> real \<Rightarrow> MetricConfig" where
  "gauge_config n vr =
     \<lparr>name = n, metric_type = GAUGE, value_range = vr, init_value = None, units = [],
      start_time = 0, ttl = Inf, update_interval = 10, listen_events = [], linked_metrics = [],
      description = []\<rparr>"

definition plain_context :: "MetricConfig \<Rightarrow> real option \<Rightarrow> MetricContext" where
  "plain_context cfg v = MetricContext cfg v None 0 Map.empty []"

text \<open>\<open>size_to_bytes\<close>. A Python string is the list of its code points, here those below
  256. On them \<open>str.lower\<close> maps \<open>A\<close> to \<open>Z\<close> and the upper-case letters of Latin-1 to
  their lower case; \<open>str.strip\<close> and the \<open>\s\<close> of a regular expression take the white space
  characters 9 to 13, 28 to 32, 133 and 160; \<open>\d\<close> takes \<open>0\<close> to \<open>9\<close>.\<close>

definition BYTE_UNITS :: "(string \<times> nat) list" where
  "BYTE_UNITS =
     [(''b'', 1), (''byte'', 1), (''bytes'', 1),
      (''kb'', 1024), (''kbyte'', 1024), (''kbytes'', 1024), (''kilobyte'', 1024), (''kilobytes'', 1024),
      (''mb'', 1024 ^ 2), (''mbyte'', 1024 ^ 2), (''mbytes'', 1024 ^ 2), (''megabyte'', 1024 ^ 2),
      (''megabytes'', 1024 ^ 2),
      (''gb'', 1024 ^ 3), (''gbyte'', 1024 ^ 3), (''gbytes'', 1024 ^ 3), (''gigabyte'', 1024 ^ 3),
      (''gigabytes'', 1024 ^ 3),
      (''tb'', 1024 ^ 4), (''tbyte'', 1024 ^ 4), (''tbytes'', 1024 ^ 4), (''terabyte'', 1024 ^ 4),
      (''terabytes'', 1024 ^ 4),
      (''pb'', 1024 ^ 5), (''pbyte'', 1024 ^ 5), (''pbytes'', 1024 ^ 5), (''petabyte'', 1024 ^ 5),
      (''petabytes'', 1024 ^ 5)]"

definition BIT_UNITS :: "(string \<times> nat) list" where
  "BIT_UNITS =
     [(''bit'', 1), (''bits'', 1),
      (''kbit'', 1024), (''kbits'', 1024), (''kilobit'', 1024), (''kilobits'', 1024),
      (''mbit'', 1024 ^ 2), (''mbits'', 1024 ^ 2), (''megabit'', 1024 ^ 2), (''megabits'', 1024 ^ 2),
      (''gbit'', 1024 ^ 3), (''gbits'', 1024 ^ 3), (''gigabit'', 1024 ^ 3), (''gigabits'', 1024 ^ 3),
      (''tbit'', 1024 ^ 4), (''tbits'', 1024 ^ 4), (''terabit'', 1024 ^ 4), (''terabits'', 1024 ^ 4),
      (''pbit'', 1024 ^ 5), (''pbits'', 1024 ^ 5), (''petabit'', 1024 ^ 5), (''petabits'', 1024 ^ 5)]"

definition is_space :: "char \<Rightarrow> bool" where
  "is_space c =
     (let n = (of_char c :: nat) in (9 \<le> n \<and> n \<le> 13) \<or> (28 \<le> n \<and> n \<le> 32) \<or> n = 133 \<or> n = 160)"

definition is_digit :: "char \<Rightarrow> bool" where
  "is_digit c = (let n = (of_char c :: nat) in 48 \<le> n \<and> n \<le> 57)"

definition is_lower_az :: "char \<Rightarrow> bool" where
  "is_lower_az c = (let n = (of_char c :: nat) in 97 \<le> n \<and> n \<le> 122)"

definition lower_char :: "char \<Rightarrow> char" where
  "lower_char c =
     (let n = (of_char c :: nat)
      in if (65 \<le> n \<and> n \<le> 90) \<or> (192 \<le> n \<and> n \<le> 222 \<and> n \<noteq> 215) then char_of (n + 32) else c)"

definition py_lower :: "string \<Rightarrow> string" where
  "py_lower s = map lower_char s"

definition py_strip :: "string \<Rightarrow> string" where
  "py_strip s = rev (dropWhile is_space (rev (dropWhile is_space s)))"

text \<open>\<open>re.match(r'^(\d+(?:\.\d+)?)\s*([a-z]+)$', s)\<close>: the two groups of the match, if
  there is one. Each repetition takes all it can, since what follows it cannot start with a
  character of its class; \<open>$\<close> matches at the end and before a final newline.\<close>

definition match_size :: "string \<Rightarrow> (string \<times> string) option" where
  "match_size s =
     (let int_part = takeWhile is_digit s;
          r1 = dropWhile is_digit s
      in if int_part = [] then None
         else
           let (frac_part, r2) =
                 (case r1 of
                    [] \<Rightarrow> ([], r1)
                  | c # r \<Rightarrow>
                      if c = CHR ''.'' \<and> takeWhile is_digit r \<noteq> []
                      then (c # takeWhile is_digit r, dropWhile is_digit r)
                      else ([], r1));
               r3 = dropWhile is_space r2;
               unit = takeWhile is_lower_az r3;
               r4 = dropWhile is_lower_az r3
           in if unit \<noteq> [] \<and> (r4 = [] \<or> r4 = [CHR 0x0A]) then Some (int_part @ frac_part, unit)
              else None)"

text \<open>\<open>float(number_str)\<close> for the digits, and optional fraction, of the first group: the
  decimal number, rounded to the nearest double (ties to the even significand). A result of
  \<open>2 ^ 1024\<close> or more stands for \<open>inf\<close>.\<close>

definition digits_value :: "string \<Rightarrow> nat" where
  "digits_value ds = foldl (\<lambda>a c. 10 * a + (of_char c - 48)) 0 ds"

definition decimal_value :: "string \<Rightarrow> real" where
  "decimal_value number_str =
     real (digits_value (takeWhile is_digit number_str))
     + (case dropWhile is_digit number_str of
          [] \<Rightarrow> 0
        | c # fr \<Rightarrow> real (digits_value fr) / 10 ^ length fr)"

definition to_double :: "real \<Rightarrow> real" where
  "to_double x =
     (if x = 0 then 0
      else
        let e = max \<lfloor>log 2 \<bar>x\<bar>\<rfloor> (- 1022);
            ulp = 2 powr (of_int (e - 52))
        in of_int (round_half_even (x / ulp)) * ulp)"

text \<open>The argument of \<open>size_to_bytes\<close>: a string, or an object of another type.\<close>

datatype size_arg = SizeStr string | SizeOther

definition size_to_bytes :: "size_arg \<Rightarrow> py_error + int" where
  "size_to_bytes sz =
     (case sz of
        SizeOther \<Rightarrow> Inl ValueError
      | SizeStr s \<Rightarrow>
          if s = [] then Inl ValueError
          else
            let size_lower = py_strip (py_lower s) in
            case match_size size_lower of
              None \<Rightarrow> Inl ValueError
            | Some (number_str, unit) \<Rightarrow>
                (let number = to_double (decimal_value number_str) in
                 case (case map_of BYTE_UNITS unit of
                         Some m \<Rightarrow> Some m
                       | None \<Rightarrow> map_of BIT_UNITS unit) of
                   None \<Rightarrow> Inl ValueError
                 | Some multiplier \<Rightarrow>
                     if number * real multiplier \<ge> 2 ^ 1024 then Inl OverflowError
                     else Inr \<lfloor>number * real multiplier\<rfloor>))"

text \<open>The format of the specification: a decimal number without sign or exponent, optional
  white space, and a unit of letters of either case. The number, the unit in lower case and
  the multiplier of a string of that format.\<close>

definition is_letter :: "char \<Rightarrow> bool" where
  "is_letter c = (let n = (of_char c :: nat) in (65 \<le> n \<and> n \<le> 90) \<or> (97 \<le> n \<and> n \<le> 122))"

definition accepted_format :: "string \<Rightarrow> bool" where
  "accepted_format s =
     (\<exists>ip fp ws u. s = ip @ fp @ ws @ u
        \<and> ip \<noteq> [] \<and> list_all is_digit ip
        \<and> (fp = [] \<or> (\<exists>d. fp = CHR ''.'' # d \<and> d \<noteq> [] \<and> list_all is_digit d))
        \<and> list_all is_space ws
        \<and> u \<noteq> [] \<and> list_all is_letter u)"

definition unit_text :: "string \<Rightarrow> string" where
  "unit_text s = py_lower (rev (takeWhile is_letter (rev s)))"

definition number_text :: "string \<Rightarrow> string" where
  "number_text s = takeWhile (\<lambda>c. is_digit c \<or> c = CHR ''.'') s"

definition unit_multiplier :: "string \<Rightarrow> nat option" where
  "unit_multiplier u = map_of (BYTE_UNITS @ BIT_UNITS) u"

text \<open>The pieces of a string read from the left: digits, a fraction, white space, letters,
  and what is left.\<close>

definition split_size :: "string \<Rightarrow> string \<times> string \<times> string \<times> string \<times> string" where
  "split_size t =
     (let ip = takeWhile is_digit t;
          r1 = dropWhile is_digit t;
          (fp, r2) =
            (case r1 of
               [] \<Rightarrow> ([], r1)
             | c # r \<Rightarrow>
                 if c = CHR ''.'' \<and> takeWhile is_digit r \<noteq> []
                 then (c # takeWhile is_digit r, dropWhile is_digit r)
                 else ([], r1));
          ws = takeWhile is_space r2;
          r3 = dropWhile is_space r2
      in (ip, fp, ws, takeWhile is_letter r3, dropWhile is_letter r3))"

section \<open>The emulated metric (metrics.py)\<close>

definition VALUE_DECIMAL_PLACES :: nat where
  "VALUE_DECIMAL_PLACES = 2"

text \<open>A scenario returns an optional float or raises, and may write to the storage of its
  context: the model returns the storage it leaves. It is taken to write to no other storage
  (that of a linked metric is within its reach), as the scenarios of the library do.\<close>

datatype scenario_result = Returned "real option" | Raised

type_synonym scenario_fn = "MetricContext \<Rightarrow> scenario_result \<times> StateStorage"

text \<open>The fields \<open>_config\<close>, \<open>_value\<close>, \<open>_start_time\<close>, \<open>_last_update\<close> and
  \<open>_scenario_state\<close> of \<open>EmulatedMetric\<close>; \<open>m_scenario\<close> is \<open>config.scenario\<close> applied
  to \<open>config.scenario_data\<close>. The metrics of \<open>_linked_metrics\<close> are objects shared with the
  host: the functions below take their current states as the argument \<open>linked\<close>.\<close>

record EmulatedMetric =
  m_config :: MetricConfig
  m_scenario :: "scenario_fn option"
  m_value :: "real option"
  m_start_time :: real
  m_last_update :: real
  m_scenario_state :: StateStorage

definition new_metric :: "MetricConfig \<Rightarrow> scenario_fn option \<Rightarrow> real \<Rightarrow> EmulatedMetric" where
  "new_metric cfg scen now =
     \<lparr>m_config = cfg, m_scenario = scen, m_value = init_value cfg,
      m_start_time = now + start_time cfg, m_last_update = 0, m_scenario_state = Map.empty\<rparr>"

definition build_metric_context ::
  "EmulatedMetric \<Rightarrow> (string \<times> EmulatedMetric) list \<Rightarrow> Event option \<Rightarrow> real \<Rightarrow> MetricContext" where
  "build_metric_context m linked ev now =
     MetricContext (m_config m) (m_value m) ev now (m_scenario_state m)
       (map (\<lambda>(n, metric).
               (n, MetricContext (m_config metric) (m_value metric) ev now (m_scenario_state metric) []))
          linked)"

definition update_value_by_scenario ::
  "EmulatedMetric \<Rightarrow> (string \<times> EmulatedMetric) list \<Rightarrow> Event option \<Rightarrow> real
     \<Rightarrow> real option \<times> StateStorage" where
  "update_value_by_scenario m linked ev now =
     (case m_scenario m of
        None \<Rightarrow> (m_value m, m_scenario_state m)
      | Some scen \<Rightarrow>
          (case scen (build_metric_context m linked ev now) of
             (Returned v, st) \<Rightarrow> (v, st)
           | (Raised, st) \<Rightarrow> (m_value m, st)))"

text \<open>Lines 212 to 222 of \<open>update_value\<close>: the scenario, the check of the range, the
  rounding, the store.\<close>

definition compute_value ::
  "EmulatedMetric \<Rightarrow> (string \<times> EmulatedMetric) list \<Rightarrow> Event option \<Rightarrow> real
     \<Rightarrow> real option \<times> EmulatedMetric" where
  "compute_value m linked ev now =
     (let (v0, st) = update_value_by_scenario m linked ev now;
          v1 = (case v0 of
                  None \<Rightarrow> None
                | Some x \<Rightarrow>
                    Some (if x < fst (value_range (m_config m)) then fst (value_range (m_config m))
                          else if x > snd (value_range (m_config m)) then snd (value_range (m_config m))
                          else x));
          v2 = (case v1 of None \<Rightarrow> None | Some x \<Rightarrow> Some (py_round x VALUE_DECIMAL_PLACES))
      in (v2, m\<lparr>m_value := v2, m_scenario_state := st\<rparr>))"

definition update_value ::
  "EmulatedMetric \<Rightarrow> (string \<times> EmulatedMetric) list \<Rightarrow> Event option \<Rightarrow> real
     \<Rightarrow> real option \<times> EmulatedMetric" where
  "update_value m linked ev now =
     (case ev of
        None \<Rightarrow>
          if now < m_start_time m then (None, m)
          else if (case ttl (m_config m) of Inf \<Rightarrow> False | Finite t \<Rightarrow> now > m_start_time m + t)
          then (None, m)
          else if now - m_last_update m < update_interval (m_config m) then (m_value m, m)
          else compute_value (m\<lparr>m_last_update := now\<rparr>) linked None now
      | Some e \<Rightarrow> compute_value m linked (Some e) now)"

text \<open>The floats that are whole hundredths.\<close>

definition two_decimals :: "real \<Rightarrow> bool" where
  "two_decimals x = (\<exists>k::int. x = of_int k / 100)"

text \<open>A scenario that always returns the same float.\<close>

definition const_scenario :: "real \<Rightarrow> scenario_fn" where
  "const_scenario x c = (Returned (Some x), ctx_storage c)"

definition load_metric :: "real option \<Rightarrow> real \<Rightarrow> EmulatedMetric" where
  "load_metric v t =
     (new_metric (gauge_config ''load'' (0, 100)) (Some (const_scenario 250)) 0)
       \<lparr>m_value := v, m_last_update := t\<rparr>"

section \<open>The emulated host (hosts.py)\<close>

text \<open>The host holds its metrics in a dict keyed by their names, read in insertion order:
  the list \<open>h_metrics\<close>, whose names are distinct. The metrics linked to a metric are those
  of its \<open>linked_metrics\<close> that the host has, in their current state.\<close>

record EmulatedHost =
  h_is_running :: bool
  h_metrics :: "EmulatedMetric list"

definition linked_of :: "EmulatedMetric list \<Rightarrow> EmulatedMetric \<Rightarrow> (string \<times> EmulatedMetric) list" where
  "linked_of ms m =
     List.map_filter
       (\<lambda>n. map_option (Pair n) (find (\<lambda>metric. name (m_config metric) = n) ms))
       (linked_metrics (m_config m))"

text \<open>Lines 176 to 183 of \<open>_update_metrics\<close>: what is published for a value. For a
  counter, \<open>counter_total\<close> is read from the storage of the metric (default \<open>0.0\<close>), the value
  is added (a \<open>TypeError\<close> when the stored total is no number), and the sum is stored and
  published.\<close>

definition publish_value :: "EmulatedMetric \<Rightarrow> real \<Rightarrow> (py_error + real) \<times> EmulatedMetric" where
  "publish_value metric v =
     (if metric_type (m_config metric) = COUNTER then
        (case as_float (storage_get (m_scenario_state metric) ''counter_total'' (PFloat 0)) of
           None \<Rightarrow> (Inl TypeError, metric)
         | Some current_total \<Rightarrow>
             (let new_total = current_total + v
              in (Inr new_total,
                  metric\<lparr>m_scenario_state :=
                    storage_set (m_scenario_state metric) ''counter_total'' (PFloat new_total)\<rparr>)))
      else (Inr v, metric))"

text \<open>The loop of \<open>_update_metrics\<close> over the metrics at the given positions; \<open>clock i\<close> is
  the time at which metric \<open>i\<close> is updated. It returns the exception that ended it, if one did,
  the metrics, and for every metric that gave a value its name, the value of the tick and the
  value to publish, in order.\<close>

fun update_metrics_loop ::
  "(nat \<Rightarrow> real) \<Rightarrow> nat list \<Rightarrow> EmulatedMetric list \<Rightarrow> (string \<times> real \<times> real) list
     \<Rightarrow> py_error option \<times> EmulatedMetric list \<times> (string \<times> real \<times> real) list" where
  "update_metrics_loop clock [] ms entries = (None, ms, entries)"
| "update_metrics_loop clock (i # rest) ms entries =
     (case update_value (ms ! i) (linked_of ms (ms ! i)) None (clock i) of
        (None, metric) \<Rightarrow> update_metrics_loop clock rest (ms[i := metric]) entries
      | (Some v, metric) \<Rightarrow>
          (case publish_value metric v of
             (Inl e, metric') \<Rightarrow> (Some e, ms[i := metric'], entries)
           | (Inr published, metric') \<Rightarrow>
               update_metrics_loop clock rest (ms[i := metric'])
                 (entries @ [(name (m_config metric'), v, published)])))"

text \<open>\<open>metrics_data\<close>: the dict of the published values by name.\<close>

definition metrics_data_of :: "(string \<times> real \<times> real) list \<Rightarrow> (string \<times> real) list" where
  "metrics_data_of entries = fold (\<lambda>(n, v, published). AList.update n published) entries []"

text \<open>\<open>_update_metrics\<close>: the batch (empty when the host is not running, or when an
  exception ended the loop), the host, and the entries of the loop.\<close>

definition update_metrics_entries ::
  "(nat \<Rightarrow> real) \<Rightarrow> EmulatedHost
     \<Rightarrow> (string \<times> real) list \<times> EmulatedHost \<times> (string \<times> real \<times> real) list" where
  "update_metrics_entries clock h =
     (if h_is_running h then
        (case update_metrics_loop clock [0..<length (h_metrics h)] (h_metrics h) [] of
           (None, ms, entries) \<Rightarrow> (metrics_data_of entries, h\<lparr>h_metrics := ms\<rparr>, entries)
         | (Some e, ms, entries) \<Rightarrow> ([], h\<lparr>h_metrics := ms\<rparr>, entries))
      else ([], h, []))"

definition update_metrics :: "(nat \<Rightarrow> real) \<Rightarrow> EmulatedHost \<Rightarrow> (string \<times> real) list \<times> EmulatedHost" where
  "update_metrics clock h = (case update_metrics_entries clock h of (batch, h', entries) \<Rightarrow> (batch, h'))"

text \<open>What happens to a running host between its start and its stop: a tick of the main
  loop, or an event delivered to one of its metrics (\<open>_handle_event\<close> calls \<open>update_value\<close>
  with the event).\<close>

datatype host_action = Tick "nat \<Rightarrow> real" | Deliver nat Event real

definition deliver_event :: "nat \<Rightarrow> Event \<Rightarrow> real \<Rightarrow> EmulatedHost \<Rightarrow> EmulatedHost" where
  "deliver_event i e now h =
     (if i < length (h_metrics h) then
        h\<lparr>h_metrics := (h_metrics h)
             [i := snd (update_value (h_metrics h ! i) (linked_of (h_metrics h) (h_metrics h ! i))
                          (Some e) now)]\<rparr>
      else h)"

text \<open>The batches a host publishes over a sequence of actions, and the entries of its ticks.\<close>

fun host_batches :: "host_action list \<Rightarrow> EmulatedHost \<Rightarrow> (string \<times> real) list list" where
  "host_batches [] h = []"
| "host_batches (Tick clock # acts) h =
     (case update_metrics clock h of (batch, h') \<Rightarrow> batch # host_batches acts h')"
| "host_batches (Deliver i e now # acts) h = host_batches acts (deliver_event i e now h)"

fun host_entries :: "host_action list \<Rightarrow> EmulatedHost \<Rightarrow> (string \<times> real \<times> real) list" where
  "host_entries [] h = []"
| "host_entries (Tick clock # acts) h =
     (case update_metrics_entries clock h of (batch, h', entries) \<Rightarrow> entries @ host_entries acts h')"
| "host_entries (Deliver i e now # acts) h = host_entries acts (deliver_event i e now h)"

text \<open>The metrics of the host when the loop of a tick reaches position \<open>k\<close>, the value
  \<open>update_value\<close> returns there for the metric at \<open>k\<close>, and the exception that ends the
  loop of a tick, if one does.\<close>

definition metrics_before :: "(nat \<Rightarrow> real) \<Rightarrow> nat \<Rightarrow> EmulatedHost \<Rightarrow> EmulatedMetric list" where
  "metrics_before clock k h = fst (snd (update_metrics_loop clock [0..<k] (h_metrics h) []))"

definition tick_value :: "(nat \<Rightarrow> real) \<Rightarrow> nat \<Rightarrow> EmulatedHost \<Rightarrow> real option" where
  "tick_value clock k h =
     (let ms = metrics_before clock k h
      in fst (update_value (ms ! k) (linked_of ms (ms ! k)) None (clock k)))"

definition tick_error :: "(nat \<Rightarrow> real) \<Rightarrow> EmulatedHost \<Rightarrow> py_error option" where
  "tick_error clock h = fst (update_metrics_loop clock [0..<length (h_metrics h)] (h_metrics h) [])"

text \<open>The exceptions that ended ticks of a run: \<open>_update_metrics\<close> logs each and returns
  an empty batch for its tick.\<close>

fun host_errors :: "host_action list \<Rightarrow> EmulatedHost \<Rightarrow> py_error list" where
  "host_errors [] h = []"
| "host_errors (Tick clock # acts) h =
     (if h_is_running h then (case tick_error clock h of None \<Rightarrow> [] | Some e \<Rightarrow> [e]) else [])
     @ host_errors acts (snd (update_metrics clock h))"
| "host_errors (Deliver i e now # acts) h = host_errors acts (deliver_event i e now h)"

text \<open>The values of the ticks of the metric \<open>n\<close> with what was to be published for each; the
  series of the values published for \<open>n\<close>; the running sums of a list of values from a total.\<close>

definition entries_of :: "string \<Rightarrow> (string \<times> real \<times> real) list \<Rightarrow> (real \<times> real) list" where
  "entries_of n entries = map snd (filter (\<lambda>e. fst e = n) entries)"

definition published_series :: "string \<Rightarrow> (string \<times> real) list list \<Rightarrow> real list" where
  "published_series n batches = List.map_filter (\<lambda>batch. map_of batch n) batches"

fun running_sums :: "real \<Rightarrow> real list \<Rightarrow> real list" where
  "running_sums t [] = []"
| "running_sums t (v # vs) = (t + v) # running_sums (t + v) vs"

text \<open>A scenario leaves the key \<open>counter_total\<close> of the storage alone.\<close>

definition keeps_counter_total :: "scenario_fn \<Rightarrow> bool" where
  "keeps_counter_total scen = (\<forall>c. snd (scen c) ''counter_total'' = ctx_storage c ''counter_total'')"

text \<open>What the counter theorem asks of a host: the metric at position \<open>k\<close> is the counter
  named \<open>n\<close>, the names of the metrics are distinct, and the scenario of the counter leaves
  \<open>counter_total\<close> alone; and that the stored total of the counter (\<open>0\<close> when the key is
  absent) is the number \<open>t\<close>.\<close>

definition counter_ok :: "string \<Rightarrow> nat \<Rightarrow> EmulatedMetric list \<Rightarrow> bool" where
  "counter_ok n k ms =
     (k < length ms \<and> distinct (map (\<lambda>m. name (m_config m)) ms)
      \<and> name (m_config (ms ! k)) = n
      \<and> metric_type (m_config (ms ! k)) = COUNTER
      \<and> (\<forall>scen. m_scenario (ms ! k) = Some scen \<longrightarrow> keeps_counter_total scen))"

definition total_is :: "nat \<Rightarrow> EmulatedMetric list \<Rightarrow> real \<Rightarrow> bool" where
  "total_is k ms t =
     (as_float (storage_get (m_scenario_state (ms ! k)) ''counter_total'' (PFloat 0)) = Some t)"

text \<open>A running host with one counter over \<open>(-10, 10)\<close> whose scenario always returns \<open>x\<close>.\<close>

definition counter_host :: "real \<Rightarrow> EmulatedHost" where
  "counter_host x =
     \<lparr>h_is_running = True,
      h_metrics = [new_metric ((gauge_config ''requests'' (- 10, 10))\<lparr>metric_type := COUNTER\<rparr>)
                     (Some (const_scenario x)) 0]\<rparr>"

section \<open>The mixer (mixer.py)\<close>





























section \<open>Scenarios (scenarios.py)\<close>

definition with_storage :: "MetricContext \<Rightarrow> StateStorage \<Rightarrow> MetricContext" where
  "with_storage c st =
     MetricContext (ctx_data c) (ctx_value c) (ctx_event c) (ctx_timestamp c) st (ctx_links c)"

text \<open>\<open>feature_toggle\<close>: the result or the exception, the storage it leaves, and the events
  handed to \<open>EmulatorEventBus.emit\<close>, in order. The parameter \<open>start_time\<close> of the source is
  \<open>start_after\<close> here (the name is a field of \<open>MetricConfig\<close>).\<close>

definition feature_toggle ::
  "MetricContext \<Rightarrow> real \<Rightarrow> real \<Rightarrow> real \<Rightarrow> real \<Rightarrow> real \<Rightarrow> real \<Rightarrow> string option
     \<Rightarrow> (py_error + real) \<times> StateStorage \<times> Event list" where
  "feature_toggle c current_time start_after duration interval on_value off_value source =
     (if start_after < 0 \<or> duration \<le> 0 \<or> interval \<le> 0 then (Inl ValueError, ctx_storage c, [])
      else
        let st = (if storage_get (ctx_storage c) ''start_timestamp'' PNone = PNone
                  then storage_set (ctx_storage c) ''start_timestamp'' (PFloat current_time)
                  else ctx_storage c)
        in case as_float (storage_get st ''start_timestamp'' PNone) of
             None \<Rightarrow> (Inl TypeError, st, [])
           | Some start_timestamp \<Rightarrow>
               (let elapsed = current_time - start_timestamp in
                if elapsed < start_after then (Inr off_value, st, [])
                else
                  let cycle_elapsed = elapsed - start_after;
                      cycle_length = duration + interval;
                      cycle_position = py_fmod cycle_elapsed cycle_length;
                      is_on = (cycle_position < duration);
                      previous_state = storage_get st ''feature_active'' (PBool False)
                  in if py_eq_bool is_on previous_state
                     then (Inr (if is_on then on_value else off_value), st, [])
                     else (Inr (if is_on then on_value else off_value),
                           storage_set st ''feature_active'' (PBool is_on),
                           [\<lparr>event_name = (if is_on then ''feature_on'' else ''feature_off''),
                             event_data = Some [(''timestamp'', PFloat current_time)],
                             event_source = source\<rparr>])))"

text \<open>Successive calls of the scenario of one metric, at the given times: each call sees the
  storage the one before left. The results and the emitted events of each call.\<close>

fun feature_toggle_calls ::
  "MetricContext \<Rightarrow> real \<Rightarrow> real \<Rightarrow> real \<Rightarrow> real \<Rightarrow> real \<Rightarrow> string option
     \<Rightarrow> StateStorage \<Rightarrow> real list \<Rightarrow> ((py_error + real) \<times> Event list) list" where
  "feature_toggle_calls c start_after duration interval on_value off_value source st [] = []"
| "feature_toggle_calls c start_after duration interval on_value off_value source st (t # ts) =
     (case feature_toggle (with_storage c st) t start_after duration interval on_value off_value source of
        (r, st', evs) \<Rightarrow>
          (r, evs) # feature_toggle_calls c start_after duration interval on_value off_value source st' ts)"

text \<open>The on/off state of the specification at time \<open>t\<close>, for the start timestamp \<open>t0\<close>,
  and what a sequence of calls must return and emit, the state of the call before being
  \<open>prev\<close>.\<close>

definition toggle_is_on :: "real \<Rightarrow> real \<Rightarrow> real \<Rightarrow> real \<Rightarrow> real \<Rightarrow> bool" where
  "toggle_is_on t0 start_after duration interval t =
     (if t - t0 < start_after then False
      else py_fmod (t - t0 - start_after) (duration + interval) < duration)"

fun toggle_expected ::
  "real \<Rightarrow> real \<Rightarrow> real \<Rightarrow> real \<Rightarrow> real \<Rightarrow> real \<Rightarrow> string option
     \<Rightarrow> bool \<Rightarrow> real list \<Rightarrow> ((py_error + real) \<times> Event list) list" where
  "toggle_expected t0 start_after duration interval on_value off_value source prev [] = []"
| "toggle_expected t0 start_after duration interval on_value off_value source prev (t # ts) =
     (let is_on = toggle_is_on t0 start_after duration interval t
      in (Inr (if is_on then on_value else off_value),
          if is_on = prev then []
          else [\<lparr>event_name = (if is_on then ''feature_on'' else ''feature_off''),
                 event_data = Some [(''timestamp'', PFloat t)],
                 event_source = source\<rparr>])
         # toggle_expected t0 start_after duration interval on_value off_value source is_on ts)"



text \<open>\<open>switch_scenario_by_events\<close>. The value under \<open>'scenario'\<close> of an event's
  configuration is a name, a callable, or something else; the configuration is a dict whose
  keys may be absent. The class \<open>Scenarios\<close> and the callables are an environment:
  \<open>has_scenario\<close> is \<open>hasattr(Scenarios, name)\<close>, \<open>call_scenario\<close> runs a function on a
  context and keyword arguments, and returns a Python value or raises, leaving a storage.\<close>

datatype scenario_spec = ScenarioName string | ScenarioCallable fn_ref | ScenarioOther

record EventConfig =
  ec_scenario :: "scenario_spec option"
  ec_scenario_data :: "(string \<times> pyval) list option"
  ec_duration :: "real option"

datatype call_result = CallReturned pyval | CallRaised

record ScenarioEnv =
  has_scenario :: "string \<Rightarrow> bool"
  call_scenario ::
    "fn_ref \<Rightarrow> MetricContext \<Rightarrow> (string \<times> pyval) list \<Rightarrow> call_result \<times> StateStorage"

text \<open>Lines 288 to 299: the default scenario, then the uniform sample.\<close>

definition switch_default ::
  "ScenarioEnv \<Rightarrow> MetricContext \<Rightarrow> real \<Rightarrow> string option \<Rightarrow> (string \<times> pyval) list
     \<Rightarrow> StateStorage \<Rightarrow> (py_error + real) \<times> StateStorage" where
  "switch_default env c u default_scenario default_scenario_data st =
     (let sample = uniform (fst (value_range (ctx_data c))) (snd (value_range (ctx_data c))) u in
      case default_scenario of
        None \<Rightarrow> (Inr sample, st)
      | Some n \<Rightarrow>
          if n \<noteq> [] \<and> has_scenario env n then
            (case call_scenario env (LibFn n) (with_storage c st) default_scenario_data of
               (CallReturned r, st') \<Rightarrow>
                 (case as_float r of Some x \<Rightarrow> (Inr x, st') | None \<Rightarrow> (Inr sample, st'))
             | (CallRaised, st') \<Rightarrow> (Inr sample, st'))
          else (Inr sample, st))"

text \<open>Lines 272 to 286: the scenario of the last event, while it lasts.\<close>

definition switch_last_event ::
  "ScenarioEnv \<Rightarrow> MetricContext \<Rightarrow> real \<Rightarrow> real \<Rightarrow> string option \<Rightarrow> (string \<times> pyval) list
     \<Rightarrow> StateStorage \<Rightarrow> (py_error + real) \<times> StateStorage" where
  "switch_last_event env c current_time u default_scenario default_scenario_data st =
     (let last_event_scenario = storage_get st ''last_event_scenario'' PNone;
          last_event_duration = storage_get st ''last_event_duration'' PNone;
          last_event_timestamp = storage_get st ''last_event_timestamp'' PNone;
          invoke_last =
            (case (last_event_scenario, storage_get st ''last_event_params'' (PDict [])) of
               (PFunc f, PDict last_event_params) \<Rightarrow>
                 (case call_scenario env f (with_storage c st) last_event_params of
                    (CallReturned r, st') \<Rightarrow>
                      (case as_float r of
                         Some x \<Rightarrow> (Inr x, st')
                       | None \<Rightarrow> switch_default env c u default_scenario default_scenario_data st')
                  | (CallRaised, st') \<Rightarrow>
                      switch_default env c u default_scenario default_scenario_data st')
             | _ \<Rightarrow> switch_default env c u default_scenario default_scenario_data st)
      in if py_truthy last_event_scenario \<and> py_truthy last_event_timestamp then
           (if last_event_duration = PNone then invoke_last
            else case (as_float last_event_timestamp, as_float last_event_duration) of
                   (Some ts, Some dur) \<Rightarrow>
                     if current_time - ts \<le> dur then invoke_last
                     else switch_default env c u default_scenario default_scenario_data st
                 | _ \<Rightarrow> (Inl TypeError, st))
         else switch_default env c u default_scenario default_scenario_data st)"

definition switch_scenario_by_events ::
  "ScenarioEnv \<Rightarrow> MetricContext \<Rightarrow> real \<Rightarrow> real \<Rightarrow> (string \<times> EventConfig) list
     \<Rightarrow> string option \<Rightarrow> (string \<times> pyval) list option
     \<Rightarrow> (py_error + real) \<times> StateStorage" where
  "switch_scenario_by_events env c current_time u events_config default_scenario dsd =
     (let default_scenario_data = (case dsd of None \<Rightarrow> [] | Some d \<Rightarrow> d);
          st = ctx_storage c;
          sample = uniform (fst (value_range (ctx_data c))) (snd (value_range (ctx_data c))) u
      in case (case ctx_event c of None \<Rightarrow> None | Some e \<Rightarrow> map_of events_config (event_name e)) of
           None \<Rightarrow> switch_last_event env c current_time u default_scenario default_scenario_data st
         | Some event_config \<Rightarrow>
             (case ec_scenario event_config of
                None \<Rightarrow>
                  switch_last_event env c current_time u default_scenario default_scenario_data
                    (storage_set
                       (storage_set (storage_set st ''last_event_scenario'' PNone)
                          ''last_event_duration'' PNone)
                       ''last_event_timestamp'' PNone)
              | Some scenario_name \<Rightarrow>
                  (let scenario_data =
                         (case ec_scenario_data event_config of None \<Rightarrow> [] | Some d \<Rightarrow> d);
                       st1 = storage_set
                               (storage_set
                                  (storage_set st ''last_event_params'' (PDict scenario_data))
                                  ''last_event_timestamp'' (PFloat current_time))
                               ''last_event_duration''
                               (case ec_duration event_config of
                                  None \<Rightarrow> PNone | Some d \<Rightarrow> PFloat d);
                       scenario_func =
                         (case scenario_name of
                            ScenarioName n \<Rightarrow> if has_scenario env n then Some (LibFn n) else None
                          | ScenarioCallable f \<Rightarrow> Some f
                          | ScenarioOther \<Rightarrow> None)
                   in case scenario_func of
                        None \<Rightarrow>
                          switch_last_event env c current_time u default_scenario
                            default_scenario_data st1
                      | Some f \<Rightarrow>
                          (case call_scenario env f (with_storage c st1) scenario_data of
                             (CallRaised, st2) \<Rightarrow> (Inr sample, st2)
                           | (CallReturned r, st2) \<Rightarrow>
                               (let st3 = storage_set st2 ''last_event_scenario'' (PFunc f) in
                                case as_float r of
                                  Some x \<Rightarrow> (Inr x, st3)
                                | None \<Rightarrow> (Inr sample, st3))))))"

text \<open>An environment whose every function raises, and the event configuration of the test
  \<open>test_switch_scenario_state_cleanup_on_error\<close>: a callable that fails, for 60 seconds.\<close>

definition raising_env :: ScenarioEnv where
  "raising_env = \<lparr>has_scenario = (\<lambda>n. False), call_scenario = (\<lambda>f c kw. (CallRaised, ctx_storage c))\<rparr>"

definition failing_event_config :: "(string \<times> EventConfig) list" where
  "failing_event_config =
     [(''failing_event'',
       \<lparr>ec_scenario = Some (ScenarioCallable (UserFn 0)), ec_scenario_data = Some [],
        ec_duration = Some 60\<rparr>)]"

definition failing_event_context :: MetricContext where
  "failing_event_context =
     MetricContext (gauge_config ''load'' (0, 100)) (Some 50)
       (Some \<lparr>event_name = ''failing_event'', event_data = None, event_source = None\<rparr>)
       1000 Map.empty []"

text \<open>The stored flag \<open>feature_active\<close>, read with its default.\<close>

definition flag_is :: "StateStorage \<Rightarrow> bool \<Rightarrow> bool" where
  "flag_is st b = (storage_get st ''feature_active'' (PBool False) = PBool b)"

chapter \<open>Verified properties\<close>

section \<open>Utilities\<close>

lemma calc_percent_usage_Some:
  assumes "ctx_value c = Some v" and "value_range (ctx_data c) = (lo, hi)"
  shows "calc_percent_usage c =
     (if lo \<ge> hi then Inl ValueError else Inr (Some ((max lo (min hi v) - lo) / (hi - lo) * 100)))"
  using assms by (simp add: calc_percent_usage_def Let_def)

lemma max_min_clamp: "lo < hi \<Longrightarrow> max lo (min hi v) = clamp lo hi v"
  by (simp add: clamp_def max_def min_def)

text \<open>
  Claim C9. With \<open>value_range = (lo, hi)\<close>: a context without a value gives \<open>None\<close>; with a
  value and \<open>lo \<ge> hi\<close> the function raises; otherwise the result is
  \<open>((clamped - lo) / (hi - lo)) * 100\<close> for the value clamped into \<open>[lo, hi]\<close>, which is \<open>0\<close>
  for every value below \<open>lo\<close> and \<open>100\<close> for every value above \<open>hi\<close>, and the function gives the
  same result on the clamped value as on the value itself.
\<close>

theorem calc_percent_usage_clamped:
  assumes vr: "value_range (ctx_data c) = (lo, hi)"
  shows "(ctx_value c = None \<longrightarrow> calc_percent_usage c = Inr None)
       \<and> (\<forall>v. ctx_value c = Some v \<and> lo \<ge> hi \<longrightarrow> calc_percent_usage c = Inl ValueError)
       \<and> (\<forall>v. ctx_value c = Some v \<and> lo < hi \<longrightarrow>
             calc_percent_usage c = Inr (Some ((clamp lo hi v - lo) / (hi - lo) * 100))
           \<and> (v < lo \<longrightarrow> calc_percent_usage c = Inr (Some 0))
           \<and> (v > hi \<longrightarrow> calc_percent_usage c = Inr (Some 100))
           \<and> calc_percent_usage (with_value c (Some (clamp lo hi v))) = calc_percent_usage c)"
proof (intro conjI allI impI)
  assume "ctx_value c = None"
  then show "calc_percent_usage c = Inr None"
    by (simp add: calc_percent_usage_def)
next
  fix v assume "ctx_value c = Some v \<and> lo \<ge> hi"
  then show "calc_percent_usage c = Inl ValueError"
    using calc_percent_usage_Some [OF _ vr] by simp
next
  fix v assume h: "ctx_value c = Some v \<and> lo < hi"
  then have eq: "calc_percent_usage c = Inr (Some ((clamp lo hi v - lo) / (hi - lo) * 100))"
    using calc_percent_usage_Some [OF _ vr, of v] max_min_clamp [of lo hi v] by simp
  show "calc_percent_usage c = Inr (Some ((clamp lo hi v - lo) / (hi - lo) * 100))"
    by (rule eq)
  show "calc_percent_usage c = Inr (Some 0)" if "v < lo"
    using eq that by (simp add: clamp_def)
  show "calc_percent_usage c = Inr (Some 100)" if "v > hi"
    using eq that h by (simp add: clamp_def)
  have idem: "clamp lo hi (clamp lo hi v) = clamp lo hi v"
    using h by (simp add: clamp_def)
  have "calc_percent_usage (with_value c (Some (clamp lo hi v))) =
        Inr (Some ((clamp lo hi (clamp lo hi v) - lo) / (hi - lo) * 100))"
    using calc_percent_usage_Some [of "with_value c (Some (clamp lo hi v))" "clamp lo hi v" lo hi]
      max_min_clamp [of lo hi "clamp lo hi v"] vr h
    by (simp add: with_value_def)
  then show "calc_percent_usage (with_value c (Some (clamp lo hi v))) = calc_percent_usage c"
    using eq idem by simp
qed

theorem calc_percent_usage_clamped_witness:
  "calc_percent_usage (plain_context (gauge_config ''mem'' (10, 90)) (Some 200)) = Inr (Some 100)
   \<and> calc_percent_usage (plain_context (gauge_config ''mem'' (10, 90)) (Some (-50))) = Inr (Some 0)
   \<and> calc_percent_usage (plain_context (gauge_config ''mem'' (10, 90)) (Some 30)) = Inr (Some 25)
   \<and> calc_percent_usage (plain_context (gauge_config ''mem'' (10, 90)) None) = Inr None
   \<and> calc_percent_usage (plain_context (gauge_config ''mem'' (90, 10)) (Some 30)) = Inl ValueError"
  using calc_percent_usage_clamped [of "plain_context (gauge_config ''mem'' (10, 90)) (Some 200)" 10 90]
    calc_percent_usage_clamped [of "plain_context (gauge_config ''mem'' (10, 90)) (Some (-50))" 10 90]
    calc_percent_usage_clamped [of "plain_context (gauge_config ''mem'' (10, 90)) (Some 30)" 10 90]
    calc_percent_usage_clamped [of "plain_context (gauge_config ''mem'' (10, 90)) None" 10 90]
    calc_percent_usage_clamped [of "plain_context (gauge_config ''mem'' (90, 10)) (Some 30)" 90 10]
  by (simp add: plain_context_def gauge_config_def clamp_def)

lemma of_char_lt: "(of_char c :: nat) < 256"
  by (rule nat_of_char_less_256)

lemma of_char_lower:
  "(of_char (lower_char c) :: nat) =
     (let n = (of_char c :: nat)
      in if (65 \<le> n \<and> n \<le> 90) \<or> (192 \<le> n \<and> n \<le> 222 \<and> n \<noteq> 215) then n + 32 else n)"
  by (auto simp: lower_char_def Let_def)

lemma is_space_lower [simp]: "is_space (lower_char c) = is_space c"
  by (auto simp: is_space_def of_char_lower Let_def)

lemma is_digit_lower [simp]: "is_digit (lower_char c) = is_digit c"
  by (auto simp: is_digit_def of_char_lower Let_def)

lemma is_az_lower [simp]: "is_lower_az (lower_char c) = is_letter c"
  by (auto simp: is_lower_az_def is_letter_def of_char_lower Let_def)

lemma char_eq_code: "(c = d) = ((of_char c :: nat) = of_char d)"
  by simp

lemma dot_lower [simp]: "(lower_char c = CHR ''.'') = (c = CHR ''.'')"
  unfolding char_eq_code [of _ "CHR ''.''"] by (auto simp: of_char_lower Let_def)

lemma nl_lower [simp]: "(lower_char c = CHR 0x0A) = (c = CHR 0x0A)"
  unfolding char_eq_code [of _ "CHR 0x0A"] by (auto simp: of_char_lower Let_def)

lemma lower_digit: "is_digit c \<Longrightarrow> lower_char c = c"
  by (auto simp: is_digit_def lower_char_def Let_def)

lemma lower_dot [simp]: "lower_char (CHR ''.'') = CHR ''.''"
  by (simp add: lower_char_def)

lemma digit_not_space: "is_digit c \<Longrightarrow> \<not> is_space c"
  and digit_not_letter: "is_digit c \<Longrightarrow> \<not> is_letter c"
  and digit_not_dot: "is_digit c \<Longrightarrow> c \<noteq> CHR ''.''"
  and space_not_letter: "is_space c \<Longrightarrow> \<not> is_letter c"
  and space_not_dot: "is_space c \<Longrightarrow> c \<noteq> CHR ''.''"
  and letter_not_dot: "is_letter c \<Longrightarrow> c \<noteq> CHR ''.''"
  and nl_space: "is_space (CHR 0x0A)"
  by (auto simp: is_digit_def is_space_def is_letter_def Let_def)

lemma comp_lower [simp]:
  "is_digit \<circ> lower_char = is_digit" "is_space \<circ> lower_char = is_space"
  "is_lower_az \<circ> lower_char = is_letter"
  by (simp_all add: fun_eq_iff)

lemma map_lower_nl [simp]: "(map lower_char r = [CHR 0x0A]) = (r = [CHR 0x0A])"
  by (cases r) auto

lemma match_size_lower:
  "match_size (py_lower t) =
     (case split_size t of
        (ip, fp, ws, u, r4) \<Rightarrow>
          if ip \<noteq> [] \<and> u \<noteq> [] \<and> (r4 = [] \<or> r4 = [CHR 0x0A])
          then Some (py_lower (ip @ fp), py_lower u) else None)"
proof -
  have tk: "takeWhile is_digit (map lower_char xs) = map lower_char (takeWhile is_digit xs)"
    "dropWhile is_digit (map lower_char xs) = map lower_char (dropWhile is_digit xs)"
    "takeWhile is_lower_az (map lower_char xs) = map lower_char (takeWhile is_letter xs)"
    "dropWhile is_lower_az (map lower_char xs) = map lower_char (dropWhile is_letter xs)"
    "dropWhile is_space (map lower_char xs) = map lower_char (dropWhile is_space xs)" for xs
    by (simp_all add: takeWhile_map dropWhile_map)
  show ?thesis
  proof (cases "dropWhile is_digit t")
    case Nil
    then show ?thesis
      by (simp add: match_size_def split_size_def py_lower_def tk Let_def
          del: dropWhile_eq_Nil_conv takeWhile_eq_all_conv)
  next
    case (Cons c r)
    then show ?thesis
      by (simp add: match_size_def split_size_def py_lower_def tk Let_def
          del: dropWhile_eq_Nil_conv takeWhile_eq_all_conv)
  qed
qed

lemma split_size_pieces:
  assumes "split_size t = (ip, fp, ws, u, r4)"
  shows "t = ip @ fp @ ws @ u @ r4 \<and> list_all is_digit ip
       \<and> (fp = [] \<or> (\<exists>d. fp = CHR ''.'' # d \<and> d \<noteq> [] \<and> list_all is_digit d))
       \<and> list_all is_space ws \<and> list_all is_letter u"
proof -
  have tw: "list_all P (takeWhile P xs)" for P :: "char \<Rightarrow> bool" and xs
    by (auto simp: list_all_iff dest: set_takeWhileD)
  have id: "takeWhile P xs @ dropWhile P xs = xs" for P :: "char \<Rightarrow> bool" and xs
    by simp
  let ?r1 = "dropWhile is_digit t"
  show ?thesis
  proof (cases "\<exists>r. ?r1 = CHR ''.'' # r \<and> takeWhile is_digit r \<noteq> []")
    case True
    then obtain r where r: "?r1 = CHR ''.'' # r" "takeWhile is_digit r \<noteq> []" by blast
    let ?r2 = "dropWhile is_digit r"
    have p: "ip = takeWhile is_digit t" "fp = CHR ''.'' # takeWhile is_digit r"
      "ws = takeWhile is_space ?r2" "u = takeWhile is_letter (dropWhile is_space ?r2)"
      "r4 = dropWhile is_letter (dropWhile is_space ?r2)"
      using assms r by (simp_all add: split_size_def Let_def)
    have "t = takeWhile is_digit t @ ?r1" by simp
    also have "?r1 = CHR ''.'' # (takeWhile is_digit r @ ?r2)" using r by simp
    also have "?r2 = takeWhile is_space ?r2 @ dropWhile is_space ?r2" by simp
    also have "dropWhile is_space ?r2 = u @ r4" using p by simp
    finally have "t = ip @ fp @ ws @ u @ r4" using p by simp
    then show ?thesis using p r tw by auto
  next
    case False
    have p: "ip = takeWhile is_digit t" "fp = []"
      "ws = takeWhile is_space ?r1" "u = takeWhile is_letter (dropWhile is_space ?r1)"
      "r4 = dropWhile is_letter (dropWhile is_space ?r1)"
      using assms False by (auto simp: split_size_def Let_def split: list.splits if_splits)
    have "t = takeWhile is_digit t @ ?r1" by simp
    also have "?r1 = takeWhile is_space ?r1 @ dropWhile is_space ?r1" by simp
    also have "dropWhile is_space ?r1 = u @ r4" using p by simp
    finally have "t = ip @ fp @ ws @ u @ r4" using p by simp
    then show ?thesis using p tw by auto
  qed
qed

lemma while_prefix:
  assumes "\<forall>x\<in>set xs. P x" "ys = [] \<or> \<not> P (hd ys)"
  shows "takeWhile P (xs @ ys) = xs" "dropWhile P (xs @ ys) = ys"
proof -
  have "takeWhile P ys = []" using assms(2) by (simp add: takeWhile_eq_Nil_iff)
  then show "takeWhile P (xs @ ys) = xs" using assms(1) by simp
  have "dropWhile P ys = ys" using assms(2) by (simp add: dropWhile_eq_self_iff)
  then show "dropWhile P (xs @ ys) = ys" using assms(1) by simp
qed

lemma hd_spaces_letters:
  assumes "list_all is_space ws" "u \<noteq> []" "list_all is_letter u"
  shows "\<not> is_digit (hd (ws @ u))" "hd (ws @ u) \<noteq> CHR ''.''" "ws @ u \<noteq> []"
proof -
  have "is_space (hd (ws @ u)) \<or> is_letter (hd (ws @ u))"
    using assms by (cases ws; cases u) (auto simp: list_all_iff)
  then show "\<not> is_digit (hd (ws @ u))" "hd (ws @ u) \<noteq> CHR ''.''"
    using digit_not_space digit_not_letter space_not_dot letter_not_dot by blast+
  show "ws @ u \<noteq> []" using assms(2) by simp
qed

lemma split_size_accepted:
  assumes ip: "ip \<noteq> []" "list_all is_digit ip"
    and fp: "fp = [] \<or> (\<exists>d. fp = CHR ''.'' # d \<and> d \<noteq> [] \<and> list_all is_digit d)"
    and ws: "list_all is_space ws" and u: "u \<noteq> []" "list_all is_letter u"
  shows "split_size (ip @ fp @ ws @ u) = (ip, fp, ws, u, [])"
proof -
  note h = hd_spaces_letters [OF ws u]
  have dig: "\<forall>x\<in>set ip. is_digit x" using ip by (simp add: list_all_iff)
  have sp: "\<forall>x\<in>set ws. is_space x" using ws by (simp add: list_all_iff)
  have le: "\<forall>x\<in>set u. is_letter x" using u by (simp add: list_all_iff)
  have hdu: "\<not> is_space (hd u)"
    using u space_not_letter [of "hd u"] by (cases u) (auto simp: list_all_iff)
  have t3: "takeWhile is_space (ws @ u) = ws" "dropWhile is_space (ws @ u) = u"
    using while_prefix [of ws is_space u] sp hdu by simp_all
  have t4: "takeWhile is_letter u = u" "dropWhile is_letter u = []"
    using le by simp_all
  show ?thesis
  proof (cases "fp = []")
    case True
    have t1: "takeWhile is_digit (ip @ ws @ u) = ip" "dropWhile is_digit (ip @ ws @ u) = ws @ u"
      using while_prefix [of ip is_digit "ws @ u"] dig h by simp_all
    obtain c r where cr: "ws @ u = c # r" using h(3) by (cases "ws @ u") auto
    then have "c \<noteq> CHR ''.''" using h(2) by simp
    then show ?thesis
      using True t1 t3 t4 cr ip
      by (simp add: split_size_def Let_def del: dropWhile_eq_Nil_conv takeWhile_eq_all_conv)
  next
    case False
    then obtain d where d: "fp = CHR ''.'' # d" "d \<noteq> []" "list_all is_digit d"
      using fp by blast
    have dd: "\<forall>x\<in>set d. is_digit x" using d by (simp add: list_all_iff)
    have nd: "\<not> is_digit (CHR ''.'')" using digit_not_dot by blast
    have t1: "takeWhile is_digit (ip @ fp @ ws @ u) = ip"
      "dropWhile is_digit (ip @ fp @ ws @ u) = CHR ''.'' # (d @ ws @ u)"
      using while_prefix [of ip is_digit "fp @ ws @ u"] dig d nd by simp_all
    have t2: "takeWhile is_digit (d @ ws @ u) = d" "dropWhile is_digit (d @ ws @ u) = ws @ u"
      using while_prefix [of d is_digit "ws @ u"] dd h by simp_all
    show ?thesis
      using d t1 t2 t3 t4
      by (simp add: split_size_def Let_def del: dropWhile_eq_Nil_conv takeWhile_eq_all_conv)
  qed
qed

lemma strip_lower: "py_strip (py_lower s) = py_lower (py_strip s)"
  by (simp add: py_strip_def py_lower_def dropWhile_map rev_map)

lemma strip_no_trailing_space: "py_strip s = [] \<or> \<not> is_space (last (py_strip s))"
proof (cases "dropWhile is_space (rev (dropWhile is_space s)) = []")
  case True
  then show ?thesis by (simp add: py_strip_def del: dropWhile_eq_Nil_conv)
next
  case False
  then have "\<not> is_space (hd (dropWhile is_space (rev (dropWhile is_space s))))"
    by (rule hd_dropWhile)
  then show ?thesis using False
    by (simp add: py_strip_def last_rev del: dropWhile_eq_Nil_conv)
qed

lemma lower_number: "list_all (\<lambda>c. is_digit c \<or> c = CHR ''.'') xs \<Longrightarrow> py_lower xs = xs"
  by (induction xs) (auto simp: py_lower_def lower_digit)

lemma accepted_match:
  assumes "accepted_format t"
  shows "match_size (py_lower t) = Some (number_text t, unit_text t)"
proof -
  from assms obtain ip fp ws u where t: "t = ip @ fp @ ws @ u"
    and ip: "ip \<noteq> []" "list_all is_digit ip"
    and fp: "fp = [] \<or> (\<exists>d. fp = CHR ''.'' # d \<and> d \<noteq> [] \<and> list_all is_digit d)"
    and ws: "list_all is_space ws" and u: "u \<noteq> []" "list_all is_letter u"
    unfolding accepted_format_def by blast
  have sp: "split_size t = (ip, fp, ws, u, [])"
    unfolding t by (rule split_size_accepted [OF ip fp ws u])
  have num: "list_all (\<lambda>c. is_digit c \<or> c = CHR ''.'') (ip @ fp)"
    using ip fp by (auto simp: list_all_iff)
  note h = hd_spaces_letters [OF ws u]
  have nt: "number_text t = ip @ fp"
    using while_prefix(1) [of "ip @ fp" "\<lambda>c. is_digit c \<or> c = CHR ''.''" "ws @ u"] num h
    by (simp add: number_text_def t list_all_iff)
  define pre where "pre = ip @ fp @ ws"
  have "is_digit (last pre) \<or> is_space (last pre)"
  proof (cases "ws = []")
    case False
    then show ?thesis using ws by (simp add: pre_def list_all_iff)
  next
    case True
    show ?thesis
    proof (cases "fp = []")
      case True
      then show ?thesis using \<open>ws = []\<close> ip by (simp add: pre_def list_all_iff)
    next
      case False
      then obtain d where "fp = CHR ''.'' # d" "d \<noteq> []" "list_all is_digit d" using fp by blast
      then show ?thesis using \<open>ws = []\<close> by (simp add: pre_def list_all_iff)
    qed
  qed
  then have "\<not> is_letter (last pre)"
    using digit_not_letter space_not_letter by blast
  then have nl: "rev pre = [] \<or> \<not> is_letter (hd (rev pre))"
    by (simp add: hd_rev)
  have ul: "\<forall>x\<in>set (rev u). is_letter x" using u by (simp add: list_all_iff)
  have "rev t = rev u @ rev pre" by (simp add: t pre_def)
  moreover have "takeWhile is_letter (rev u @ rev pre) = rev u"
    by (rule while_prefix(1) [OF ul nl])
  ultimately have ut: "unit_text t = py_lower u"
    by (simp add: unit_text_def)
  show ?thesis
    using sp ip u nt ut lower_number [OF num]
    by (simp add: match_size_lower)
qed

lemma match_accepted:
  assumes ns: "t = [] \<or> \<not> is_space (last t)" and m: "match_size (py_lower t) \<noteq> None"
  shows "accepted_format t"
proof -
  obtain ip fp ws u r4 where sp: "split_size t = (ip, fp, ws, u, r4)"
    by (metis prod_cases5)
  from m sp have c: "ip \<noteq> []" "u \<noteq> []" "r4 = [] \<or> r4 = [CHR 0x0A]"
    by (auto simp: match_size_lower split: if_splits)
  note p = split_size_pieces [OF sp]
  have "r4 = []"
  proof (rule ccontr)
    assume "r4 \<noteq> []"
    then have "r4 = [CHR 0x0A]" using c by simp
    then have "last t = CHR 0x0A" "t \<noteq> []" using p by simp_all
    then show False using ns nl_space by simp
  qed
  then show ?thesis
    unfolding accepted_format_def using p c by (intro exI [of _ ip] exI [of _ fp] exI [of _ ws] exI [of _ u]) simp
qed

lemma unit_lookup:
  "(case map_of BYTE_UNITS u of Some m \<Rightarrow> Some m | None \<Rightarrow> map_of BIT_UNITS u) = unit_multiplier u"
  by (simp add: unit_multiplier_def map_add_def split: option.splits)

lemma size_to_bytes_eq:
  "size_to_bytes (SizeStr s) =
     (if \<not> accepted_format (py_strip s) then Inl ValueError
      else case unit_multiplier (unit_text (py_strip s)) of
             None \<Rightarrow> Inl ValueError
           | Some m \<Rightarrow>
               if to_double (decimal_value (number_text (py_strip s))) * real m \<ge> 2 ^ 1024
               then Inl OverflowError
               else Inr \<lfloor>to_double (decimal_value (number_text (py_strip s))) * real m\<rfloor>)"
proof (cases "accepted_format (py_strip s)")
  case True
  then have "py_strip s \<noteq> []" by (auto simp: accepted_format_def)
  then have "s \<noteq> []" by (auto simp: py_strip_def)
  then show ?thesis
    using True accepted_match [OF True]
    by (simp add: size_to_bytes_def strip_lower unit_lookup Let_def split: option.splits)
next
  case False
  then have "match_size (py_lower (py_strip s)) = None"
    using match_accepted [OF strip_no_trailing_space] by blast
  then show ?thesis
    using False by (simp add: size_to_bytes_def strip_lower Let_def)
qed

lemma round_half_even_bounds: "of_int (round_half_even x) \<le> x + 1/2 \<and> x - 1/2 \<le> of_int (round_half_even x)"
  unfolding round_half_even_def Let_def by (auto; linarith)

lemma round_half_even_of_int [simp]: "round_half_even (of_int n) = n"
  by (simp add: round_half_even_def)

lemma round_half_even_mono: "x \<le> y \<Longrightarrow> round_half_even x \<le> round_half_even y"
proof -
  assume xy: "x \<le> y"
  have fl: "\<lfloor>x\<rfloor> \<le> \<lfloor>y\<rfloor>" using xy by (rule floor_mono)
  show ?thesis
  proof (cases "\<lfloor>x\<rfloor> = \<lfloor>y\<rfloor>")
    case True
    then show ?thesis using xy unfolding round_half_even_def Let_def by auto
  next
    case False
    then have "\<lfloor>x\<rfloor> + 1 \<le> \<lfloor>y\<rfloor>" using fl by linarith
    moreover have "round_half_even x \<le> \<lfloor>x\<rfloor> + 1" unfolding round_half_even_def Let_def by auto
    moreover have "\<lfloor>y\<rfloor> \<le> round_half_even y" unfolding round_half_even_def Let_def by auto
    ultimately show ?thesis by linarith
  qed
qed

lemma to_double_exact:
  assumes e: "max \<lfloor>log 2 \<bar>x\<bar>\<rfloor> (- 1022) = e" and x0: "x \<noteq> 0"
    and k: "x / 2 powr (of_int (e - 52)) = of_int k"
  shows "to_double x = x"
proof -
  have pos: "(2::real) powr (of_int (e - 52)) \<noteq> 0" by simp
  have "to_double x = of_int (round_half_even (x / 2 powr (of_int (e - 52)))) * 2 powr (of_int (e - 52))"
    using x0 e by (simp only: to_double_def Let_def if_False)
  also have "\<dots> = of_int k * 2 powr (of_int (e - 52))"
    by (simp only: k round_half_even_of_int)
  also have "\<dots> = x"
    using k pos by (simp add: nonzero_divide_eq_eq)
  finally show ?thesis .
qed

lemma powr_neg: "(2::real) powr (- real n) = 1 / 2 ^ n"
  by (simp add: powr_minus powr_realpow divide_inverse)

lemma to_double_1: "to_double 1 = 1"
proof (rule to_double_exact [where e = 0 and k = "2 ^ 52"])
  show "max \<lfloor>log 2 \<bar>1::real\<bar>\<rfloor> (- 1022) = 0" by simp
  show "(1::real) \<noteq> 0" by simp
  have "real_of_int (0 - 52) = - real 52" by simp
  then have p: "(2::real) powr (real_of_int (0 - 52)) = 1 / 2 ^ 52"
    by (simp only: powr_neg)
  show "(1::real) / 2 powr (real_of_int (0 - 52)) = real_of_int (2 ^ 52)"
    unfolding p by simp
qed

lemma to_double_2: "to_double 2 = 2"
proof (rule to_double_exact [where e = 1 and k = "2 ^ 52"])
  show "max \<lfloor>log 2 \<bar>2::real\<bar>\<rfloor> (- 1022) = 1" by simp
  show "(2::real) \<noteq> 0" by simp
  have "real_of_int (1 - 52) = - real 51" by simp
  then have p: "(2::real) powr (real_of_int (1 - 52)) = 1 / 2 ^ 51"
    by (simp only: powr_neg)
  show "(2::real) / 2 powr (real_of_int (1 - 52)) = real_of_int (2 ^ 52)"
    unfolding p by simp
qed

lemma eval_1gb:
  "py_strip (py_lower ''1Gb'') = ''1gb''" "match_size ''1gb'' = Some (''1'', ''gb'')"
  "decimal_value ''1'' = 1" "map_of BYTE_UNITS ''gb'' = Some (1024 ^ 3)"
  "py_strip (py_lower '' 1Gb'') = ''1gb''"
     apply code_simp
    apply code_simp
   apply (simp add: decimal_value_def digits_value_def is_digit_def)
  apply (simp add: BYTE_UNITS_def)
  apply code_simp
  done

lemma size_to_bytes_1gb: "size_to_bytes (SizeStr ''1Gb'') = Inr (1024 ^ 3)"
  by (simp add: size_to_bytes_def eval_1gb to_double_1 Let_def)

lemma to_double_overflow:
  assumes "2 ^ 1024 \<le> x"
  shows "2 ^ 1024 \<le> to_double x"
proof -
  have x0: "0 < x" using assms by (smt (verit) zero_less_power)
  define l where "l = \<lfloor>log 2 x\<rfloor>"
  have p: "(2::real) powr (real 1024) = 2 ^ 1024" by (rule powr_realpow) simp
  have "(2::real) powr (real 1024) \<le> x" using assms by (simp only: p)
  then have "real 1024 \<le> log 2 x" using x0 by (simp only: le_log_iff) 
  then have l1024: "1024 \<le> l" unfolding l_def by (simp add: le_floor_iff)
  have "of_int l \<le> log 2 x" unfolding l_def by simp
  then have lx: "2 powr (of_int l) \<le> x" using x0 by (simp add: le_log_iff)
  define ulp where "ulp = (2::real) powr (of_int (l - 52))"
  have up: "0 < ulp" unfolding ulp_def by simp
  have pl: "(2::real) powr (of_int l) = 2 ^ 52 * ulp"
    unfolding ulp_def by (simp add: powr_diff)
  have "(2::real) ^ 52 \<le> x / ulp" using lx up pl by (simp add: pos_le_divide_eq)
  then have "round_half_even (of_int (2 ^ 52)) \<le> round_half_even (x / ulp)"
    by (intro round_half_even_mono) simp
  then have "(2::int) ^ 52 \<le> round_half_even (x / ulp)"
    by (simp only: round_half_even_of_int)
  then have "real_of_int (2 ^ 52) \<le> of_int (round_half_even (x / ulp))"
    by (simp only: of_int_le_iff)
  then have r: "(2::real) ^ 52 \<le> of_int (round_half_even (x / ulp))"
    by simp
  have td: "to_double x = of_int (round_half_even (x / ulp)) * ulp"
    using x0 l1024 unfolding to_double_def Let_def ulp_def l_def by (simp add: max_def)
  have "real 1024 \<le> of_int l" using l1024 by simp
  then have "(2::real) powr (real 1024) \<le> 2 powr (of_int l)" by (rule powr_mono) simp
  then have "(2::real) ^ 1024 \<le> 2 ^ 52 * ulp" by (simp only: p pl)
  also have "\<dots> \<le> of_int (round_half_even (x / ulp)) * ulp"
    using r up by (simp add: mult_right_mono)
  finally show ?thesis using td by simp
qed

lemma digits_value_zeros:
  "foldl (\<lambda>a c. 10 * a + (of_char c - 48)) (a::nat) (replicate n (CHR ''0'')) = a * 10 ^ n"
  by (induction n arbitrary: a) simp_all

lemma py_strip_id:
  assumes "s \<noteq> []" "\<not> is_space (hd s)" "\<not> is_space (last s)"
  shows "py_strip s = s"
proof -
  have "dropWhile is_space s = s" using assms by (cases s) simp_all
  moreover have "dropWhile is_space (rev s) = rev s"
    using assms by (cases "rev s") (simp_all add: last_rev hd_rev)
  ultimately show ?thesis by (simp add: py_strip_def)
qed

lemma accepted_parts:
  assumes ip: "ip \<noteq> []" "list_all is_digit ip"
    and fp: "fp = [] \<or> (\<exists>d. fp = CHR ''.'' # d \<and> d \<noteq> [] \<and> list_all is_digit d)"
    and ws: "list_all is_space ws" and u: "u \<noteq> []" "list_all is_letter u"
    and t: "t = ip @ fp @ ws @ u"
  shows "accepted_format t" "number_text t = ip @ fp" "unit_text t = py_lower u"
proof -
  show a: "accepted_format t"
    unfolding accepted_format_def using assms by blast
  have "split_size t = (ip, fp, ws, u, [])"
    unfolding t by (rule split_size_accepted [OF ip fp ws u])
  then have m: "match_size (py_lower t) = Some (py_lower (ip @ fp), py_lower u)"
    using ip u by (simp add: match_size_lower)
  have num: "list_all (\<lambda>c. is_digit c \<or> c = CHR ''.'') (ip @ fp)"
    using ip fp by (auto simp: list_all_iff)
  from m accepted_match [OF a] lower_number [OF num]
  show "number_text t = ip @ fp" "unit_text t = py_lower u" by simp_all
qed

lemma accepted_hd_digit: "accepted_format s \<Longrightarrow> s \<noteq> [] \<and> is_digit (hd s)"
  by (cases "s") (auto simp: accepted_format_def list_all_iff Cons_eq_append_conv)

text \<open>
  Claim C8, as amended. \<open>size_to_bytes("1Gb")\<close> is \<open>1024 ^ 3\<close>; two strings that differ
  only in the case of their letters give the same result; an argument that is no string, and
  the empty string, raise \<open>ValueError\<close>. A string raises \<open>ValueError\<close> exactly when, with
  the white space around it stripped, it is not a decimal number (no sign, no exponent)
  followed by optional white space and a unit of letters, or its unit, in lower case, is in
  neither table. Otherwise the result is the integer part of the number, as a double, times
  the multiplier of the unit, and \<open>OverflowError\<close> is raised when that product is not a
  finite double.
\<close>

theorem size_to_bytes_format:
  "size_to_bytes (SizeStr ''1Gb'') = Inr (1024 ^ 3)
   \<and> (py_lower s = py_lower s' \<longrightarrow> size_to_bytes (SizeStr s) = size_to_bytes (SizeStr s'))
   \<and> size_to_bytes SizeOther = Inl ValueError
   \<and> size_to_bytes (SizeStr []) = Inl ValueError
   \<and> ((size_to_bytes (SizeStr s) = Inl ValueError)
        = (\<not> accepted_format (py_strip s) \<or> unit_multiplier (unit_text (py_strip s)) = None))
   \<and> (\<forall>m. accepted_format (py_strip s) \<and> unit_multiplier (unit_text (py_strip s)) = Some m \<longrightarrow>
         size_to_bytes (SizeStr s) =
           (if to_double (decimal_value (number_text (py_strip s))) * real m \<ge> 2 ^ 1024
            then Inl OverflowError
            else Inr \<lfloor>to_double (decimal_value (number_text (py_strip s))) * real m\<rfloor>))"
proof (intro conjI allI impI)
  show "size_to_bytes (SizeStr ''1Gb'') = Inr (1024 ^ 3)"
    by (rule size_to_bytes_1gb)
  show "size_to_bytes (SizeStr s) = size_to_bytes (SizeStr s')" if "py_lower s = py_lower s'"
  proof -
    have "(s = []) = (s' = [])"
      using that by (metis py_lower_def map_is_Nil_conv)
    then show ?thesis using that by (simp add: size_to_bytes_def)
  qed
  show "size_to_bytes SizeOther = Inl ValueError"
    by (simp add: size_to_bytes_def)
  show "size_to_bytes (SizeStr []) = Inl ValueError"
    by (simp add: size_to_bytes_def)
  show "(size_to_bytes (SizeStr s) = Inl ValueError)
        = (\<not> accepted_format (py_strip s) \<or> unit_multiplier (unit_text (py_strip s)) = None)"
    by (auto simp: size_to_bytes_eq split: option.splits)
  show "size_to_bytes (SizeStr s) =
           (if to_double (decimal_value (number_text (py_strip s))) * real m \<ge> 2 ^ 1024
            then Inl OverflowError
            else Inr \<lfloor>to_double (decimal_value (number_text (py_strip s))) * real m\<rfloor>)"
    if "accepted_format (py_strip s) \<and> unit_multiplier (unit_text (py_strip s)) = Some m" for m
    using that by (simp add: size_to_bytes_eq)
qed

text \<open>
  The claim as stated fails in both directions. White space around the text is stripped:
  \<open>" 1Gb"\<close> is not a decimal number followed by optional white space and a unit, and
  \<open>size_to_bytes\<close> returns \<open>1024 ^ 3\<close> for it, as the repository's test of white space
  expects. And a text of the format with a known unit can raise: for \<open>1\<close> followed by 400
  zeros and the unit \<open>b\<close>, \<open>float\<close> gives \<open>inf\<close> and \<open>int\<close> raises \<open>OverflowError\<close>.
\<close>

theorem size_to_bytes_format_counterexample:
  "size_to_bytes (SizeStr '' 1Gb'') = Inr (1024 ^ 3) \<and> \<not> accepted_format '' 1Gb''
   \<and> size_to_bytes (SizeStr (CHR ''1'' # replicate 400 (CHR ''0'') @ ''b'')) = Inl OverflowError
   \<and> accepted_format (CHR ''1'' # replicate 400 (CHR ''0'') @ ''b'')
   \<and> unit_multiplier ''b'' = Some 1"
proof -
  have sp: "size_to_bytes (SizeStr '' 1Gb'') = Inr (1024 ^ 3)"
    by (simp add: size_to_bytes_def eval_1gb to_double_1 Let_def)
  have "\<not> is_digit (hd '' 1Gb'')" by (simp add: is_digit_def)
  then have na: "\<not> accepted_format '' 1Gb''"
    using accepted_hd_digit by blast
  let ?ip = "CHR ''1'' # replicate 400 (CHR ''0'')"
  let ?s = "?ip @ ''b''"
  have ip: "?ip \<noteq> []" "list_all is_digit ?ip"
    by (simp_all add: list_all_iff is_digit_def)
  have u: "''b'' \<noteq> []" "list_all is_letter ''b''"
    by (simp_all add: is_letter_def)
  have t: "?s = ?ip @ [] @ [] @ ''b''" by simp
  note parts = accepted_parts [OF ip _ _ u t]
  have acc: "accepted_format ?s" by (rule parts(1)) simp_all
  have nt: "number_text ?s = ?ip" using parts(2) by simp
  have "py_lower ''b'' = ''b''" by code_simp
  then have ut: "unit_text ?s = ''b''" using parts(3) by simp
  have st: "py_strip ?s = ?s"
    by (rule py_strip_id) (simp_all add: is_space_def)
  have um: "unit_multiplier ''b'' = Some 1"
    by (simp add: unit_multiplier_def BYTE_UNITS_def)
  have tw: "takeWhile is_digit ?ip = ?ip" "dropWhile is_digit ?ip = []"
    using ip(2) by (simp_all add: list_all_iff is_digit_def)
  have "digits_value ?ip = 10 ^ 400"
    by (simp add: digits_value_def digits_value_zeros)
  then have dv: "decimal_value ?ip = 10 ^ 400"
    unfolding decimal_value_def tw by simp
  have "(2::real) ^ 1024 \<le> 10 ^ 400" by simp
  then have big: "2 ^ 1024 \<le> to_double (decimal_value ?ip)"
    unfolding dv by (rule to_double_overflow)
  have "size_to_bytes (SizeStr ?s) = Inl OverflowError"
    using acc big by (simp only: size_to_bytes_eq st nt ut um) simp
  then show ?thesis using sp na acc um by simp
qed


theorem size_to_bytes_format_witness:
  "size_to_bytes (SizeStr ''1KB'') = size_to_bytes (SizeStr ''1kb'')
   \<and> size_to_bytes (SizeStr '' 2 Kb'') = Inr 2048
   \<and> size_to_bytes (SizeStr ''-1kb'') = Inl ValueError"
proof (intro conjI)
  have "py_lower ''1KB'' = py_lower ''1kb''" by code_simp
  then show "size_to_bytes (SizeStr ''1KB'') = size_to_bytes (SizeStr ''1kb'')"
    using size_to_bytes_format [of "''1KB''" "''1kb''"] by blast
next
  have st: "py_strip '' 2 Kb'' = ''2 Kb''" by code_simp
  have "''2 Kb'' = ''2'' @ [] @ '' '' @ ''Kb''
      \<and> ''2'' \<noteq> [] \<and> list_all is_digit ''2''
      \<and> list_all is_space '' '' \<and> ''Kb'' \<noteq> [] \<and> list_all is_letter ''Kb''"
    by (simp add: is_digit_def is_space_def is_letter_def)
  then have acc: "accepted_format ''2 Kb''"
    unfolding accepted_format_def by blast
  have ut: "unit_text ''2 Kb'' = ''kb''" by code_simp
  have um: "unit_multiplier ''kb'' = Some 1024"
    by (simp add: unit_multiplier_def BYTE_UNITS_def)
  have nt: "number_text ''2 Kb'' = ''2''" by code_simp
  have dv: "decimal_value ''2'' = 2"
    by (simp add: decimal_value_def digits_value_def is_digit_def)
  have "accepted_format (py_strip '' 2 Kb'') \<and> unit_multiplier (unit_text (py_strip '' 2 Kb'')) = Some 1024"
    by (simp add: st acc ut um)
  then have "size_to_bytes (SizeStr '' 2 Kb'') =
           (if to_double (decimal_value (number_text (py_strip '' 2 Kb''))) * real 1024 \<ge> 2 ^ 1024
            then Inl OverflowError
            else Inr \<lfloor>to_double (decimal_value (number_text (py_strip '' 2 Kb''))) * real 1024\<rfloor>)"
    using size_to_bytes_format [of "'' 2 Kb''" "'' 2 Kb''"] by blast
  then show "size_to_bytes (SizeStr '' 2 Kb'') = Inr 2048"
    by (simp add: st nt dv to_double_2)
next
  have st: "py_strip ''-1kb'' = ''-1kb''" by code_simp
  have "\<not> is_digit (hd ''-1kb'')" by (simp add: is_digit_def)
  then have "\<not> accepted_format (py_strip ''-1kb'')"
    using accepted_hd_digit st by metis
  then show "size_to_bytes (SizeStr ''-1kb'') = Inl ValueError"
    using size_to_bytes_format [of "''-1kb''" "''-1kb''"] by blast
qed

section \<open>The emulated metric\<close>

lemma py_round_mono:
  assumes "x \<le> y"
  shows "py_round x n \<le> py_round y n"
proof -
  have "x * 10 ^ n \<le> y * 10 ^ n"
    using assms by (simp add: mult_right_mono)
  then have "round_half_even (x * 10 ^ n) \<le> round_half_even (y * 10 ^ n)"
    by (rule round_half_even_mono)
  then show ?thesis
    unfolding py_round_def by (simp add: divide_right_mono)
qed



lemma py_round_two_decimals: "two_decimals x \<Longrightarrow> py_round x 2 = x"
  by (auto simp: two_decimals_def py_round_def)

lemma compute_value_eq:
  "compute_value m linked ev now =
     (let r = update_value_by_scenario m linked ev now;
          v = map_option (\<lambda>x. py_round (clamp (fst (value_range (m_config m))) (snd (value_range (m_config m))) x) 2) (fst r)
      in (v, m\<lparr>m_value := v, m_scenario_state := snd r\<rparr>))"
  by (cases "update_value_by_scenario m linked ev now")
     (auto simp: compute_value_def clamp_def VALUE_DECIMAL_PLACES_def Let_def split: option.splits)

lemma clamp_bounds: "lo \<le> hi \<Longrightarrow> lo \<le> clamp lo hi x \<and> clamp lo hi x \<le> hi"
  by (simp add: clamp_def)

lemma compute_value_range:
  assumes "fst (value_range (m_config m)) \<le> snd (value_range (m_config m))"
    and "compute_value m linked ev now = (Some v, m')"
  shows "py_round (fst (value_range (m_config m))) 2 \<le> v \<and> v \<le> py_round (snd (value_range (m_config m))) 2 \<and> m_value m' = Some v"
  using assms clamp_bounds[OF assms(1)] unfolding compute_value_eq Let_def 
  by (auto simp: py_round_mono)

lemma ubs_last_update [simp]:
  "update_value_by_scenario (m\<lparr>m_last_update := t\<rparr>) linked ev now = update_value_by_scenario m linked ev now"
  by (simp add: update_value_by_scenario_def build_metric_context_def
      split: option.split prod.split scenario_result.split)

lemma update_value_cases:
  "update_value m linked ev now = (m_value m, m) \<and> ev = None \<and> now - m_last_update m < update_interval (m_config m)
   \<or> update_value m linked ev now = (None, m) \<and> ev = None
   \<or> update_value m linked ev now = compute_value (if ev = None then m\<lparr>m_last_update := now\<rparr> else m) linked ev now"
  by (auto simp: update_value_def split: option.splits)

lemma py_round_is_two_decimals: "two_decimals (py_round x 2)"
  unfolding two_decimals_def py_round_def
  by (rule exI [of _ "round_half_even (x * 10 ^ 2)"]) simp

lemma py_round_close: "\<bar>py_round x 2 - x\<bar> \<le> 1 / 200"
proof -
  define r where "r = real_of_int (round_half_even (x * 100))"
  have e: "py_round x 2 = r / 100" by (simp add: py_round_def r_def)
  have "r \<le> x * 100 + 1 / 2 \<and> x * 100 - 1 / 2 \<le> r"
    unfolding r_def by (rule round_half_even_bounds)
  then show ?thesis unfolding e by linarith
qed

text \<open>
  Claim C1, as amended. For a metric whose \<open>value_range = (lo, hi)\<close> has \<open>lo \<le> hi\<close>, every
  value \<open>update_value\<close> returns is the value stored in the metric, and one of two things
  happened. Either the call, without an event and within the update interval, returned the
  value stored before as it was: until the first computation that is \<open>init_value\<close>, which
  is never clamped. Or the call computed: the result of the scenario was clamped to
  \<open>(lo, hi)\<close>, rounded to two decimal places, stored and returned; such a value is a whole
  hundredth within \<open>0.005\<close> of the clamped result, lies between \<open>round(lo, 2)\<close> and
  \<open>round(hi, 2)\<close>, and lies in \<open>[lo, hi]\<close> when both bounds are whole hundredths. So when the
  value stored before the call (if any) is between \<open>round(lo, 2)\<close> and \<open>round(hi, 2)\<close>, so
  is every value returned.
\<close>

theorem update_value_range:
  assumes vr: "value_range (m_config m) = (lo, hi)" and le: "lo \<le> hi"
    and upd: "update_value m linked ev now = (Some v, m')"
  shows "m_value m' = Some v
       \<and> ((ev = None \<and> now - m_last_update m < update_interval (m_config m)
             \<and> m' = m \<and> m_value m = Some v)
          \<or> (\<exists>x. fst (update_value_by_scenario m linked ev now) = Some x
                 \<and> v = py_round (clamp lo hi x) 2
                 \<and> two_decimals v \<and> \<bar>v - clamp lo hi x\<bar> \<le> 1 / 200
                 \<and> py_round lo 2 \<le> v \<and> v \<le> py_round hi 2
                 \<and> (two_decimals lo \<and> two_decimals hi \<longrightarrow> lo \<le> v \<and> v \<le> hi)))
       \<and> ((\<forall>x. m_value m = Some x \<longrightarrow> py_round lo 2 \<le> x \<and> x \<le> py_round hi 2) \<longrightarrow>
             py_round lo 2 \<le> v \<and> v \<le> py_round hi 2
             \<and> (two_decimals lo \<and> two_decimals hi \<longrightarrow> lo \<le> v \<and> v \<le> hi))"
proof -
  let ?m1 = "if ev = None then m\<lparr>m_last_update := now\<rparr> else m"
  let ?fresh = "\<exists>x. fst (update_value_by_scenario m linked ev now) = Some x
                 \<and> v = py_round (clamp lo hi x) 2
                 \<and> two_decimals v \<and> \<bar>v - clamp lo hi x\<bar> \<le> 1 / 200
                 \<and> py_round lo 2 \<le> v \<and> v \<le> py_round hi 2
                 \<and> (two_decimals lo \<and> two_decimals hi \<longrightarrow> lo \<le> v \<and> v \<le> hi)"
  consider (reuse) "ev = None" "now - m_last_update m < update_interval (m_config m)" "m' = m" "m_value m = Some v"
    | (fresh) "compute_value ?m1 linked ev now = (Some v, m')"
    using update_value_cases [of m linked ev now] upd by auto
  then have main: "m_value m' = Some v
       \<and> ((ev = None \<and> now - m_last_update m < update_interval (m_config m)
             \<and> m' = m \<and> m_value m = Some v) \<or> ?fresh)"
  proof cases
    case reuse
    then show ?thesis by simp
  next
    case fresh
    have cfg: "m_config ?m1 = m_config m" by simp
    have rng: "py_round lo 2 \<le> v \<and> v \<le> py_round hi 2 \<and> m_value m' = Some v"
      using compute_value_range [of ?m1 linked ev now v m'] fresh vr le by (simp only: cfg fst_conv snd_conv)
    obtain x where x: "fst (update_value_by_scenario m linked ev now) = Some x"
      "v = py_round (clamp lo hi x) 2"
      using fresh vr unfolding compute_value_eq Let_def by (auto split: if_splits)
    have td: "two_decimals v" and cl: "\<bar>v - clamp lo hi x\<bar> \<le> 1 / 200"
      unfolding x(2) by (rule py_round_is_two_decimals, rule py_round_close)
    have "lo \<le> v \<and> v \<le> hi" if "two_decimals lo \<and> two_decimals hi"
      using rng that by (simp add: py_round_two_decimals)
    then have ?fresh using x td cl rng by blast
    then show ?thesis using rng by blast
  qed
  have inv: "py_round lo 2 \<le> v \<and> v \<le> py_round hi 2
             \<and> (two_decimals lo \<and> two_decimals hi \<longrightarrow> lo \<le> v \<and> v \<le> hi)"
    if "\<forall>x. m_value m = Some x \<longrightarrow> py_round lo 2 \<le> x \<and> x \<le> py_round hi 2"
  proof -
    have "py_round lo 2 \<le> v \<and> v \<le> py_round hi 2" using main that by blast
    then show ?thesis by (auto simp: py_round_two_decimals)
  qed
  show ?thesis using main inv by blast
qed

text \<open>
  The claim as stated fails in two ways. The rounding comes after the clamping: over the
  range \<open>(0.0625, 100)\<close> a scenario result of \<open>0\<close> is clamped to \<open>0.0625\<close> and rounded to
  \<open>0.06\<close>, below the minimum. And a call within the update interval returns the stored value
  without clamping it: a metric over \<open>(0, 100)\<close> with \<open>init_value = 150\<close>, asked at time \<open>5\<close>
  with the default interval of 10 seconds, returns \<open>150\<close>.
\<close>

theorem update_value_range_counterexample:
  "fst (update_value (new_metric (gauge_config ''load'' (1 / 16, 100)) (Some (const_scenario 0)) 0) [] None 1000)
     = Some (3 / 50)
   \<and> \<not> fst (value_range (gauge_config ''load'' (1 / 16, 100))) \<le> 3 / 50
   \<and> fst (value_range (gauge_config ''load'' (1 / 16, 100))) \<le> snd (value_range (gauge_config ''load'' (1 / 16, 100)))
   \<and> fst (update_value (new_metric ((gauge_config ''load'' (0, 100))\<lparr>init_value := Some 150\<rparr>)
                          (Some (const_scenario 50)) 0) [] None 5)
     = Some 150
   \<and> \<not> 150 \<le> snd (value_range ((gauge_config ''load'' (0, 100))\<lparr>init_value := Some 150\<rparr>))"
  by (simp add: update_value_def compute_value_def update_value_by_scenario_def new_metric_def
      gauge_config_def const_scenario_def build_metric_context_def VALUE_DECIMAL_PLACES_def
      py_round_def round_half_even_def Let_def)

theorem update_value_range_witness:
  "update_value (new_metric (gauge_config ''load'' (0, 100)) (Some (const_scenario 250)) 0) [] None 1000
     = (Some 100, (new_metric (gauge_config ''load'' (0, 100)) (Some (const_scenario 250)) 0)
                    \<lparr>m_value := Some 100, m_last_update := 1000\<rparr>)
   \<and> m_value (snd (update_value (new_metric (gauge_config ''load'' (0, 100)) (Some (const_scenario 250)) 0) [] None 1000))
     = Some 100
   \<and> two_decimals 100"
proof -
  let ?m = "new_metric (gauge_config ''load'' (0, 100)) (Some (const_scenario 250)) 0"
  have run: "update_value ?m [] None 1000 = (Some 100, ?m\<lparr>m_value := Some 100, m_last_update := 1000\<rparr>)"
    by (simp add: update_value_def compute_value_def update_value_by_scenario_def new_metric_def
      gauge_config_def const_scenario_def build_metric_context_def VALUE_DECIMAL_PLACES_def
      py_round_def round_half_even_def Let_def)
  have vr: "value_range (m_config ?m) = (0, 100)"
    by (simp add: new_metric_def gauge_config_def)
  note t = update_value_range [OF vr _ run]
  have s: "m_value (?m\<lparr>m_value := Some 100, m_last_update := 1000\<rparr>) = Some 100"
    using t by simp
  have gate: "\<not> (1000 - m_last_update ?m < update_interval (m_config ?m))"
    by (simp add: new_metric_def gauge_config_def)
  have "two_decimals (100::real)"
    using t gate by auto
  then show ?thesis using run s by simp
qed

text \<open>
  Claim C2. A call without an event, after the start time and within the time to live:
  when \<open>now - last_update < update_interval\<close> it returns the current value and leaves the
  metric, \<open>last_update\<close> included, as it was; when \<open>now - last_update \<ge> update_interval\<close>
  (equality included) it invokes the scenario on the context of the metric, clamps, rounds
  and stores what the scenario returned, and sets \<open>last_update\<close> to \<open>now\<close>. A call with an
  event never changes \<open>last_update\<close>, and \<open>last_update\<close> changes only on a call without an
  event, past the start time and within the time to live, whose interval has elapsed.
\<close>

theorem update_value_interval_gate:
  assumes started: "\<not> now < m_start_time m"
    and alive: "case ttl (m_config m) of Inf \<Rightarrow> True | Finite t \<Rightarrow> \<not> now > m_start_time m + t"
  shows "(now - m_last_update m < update_interval (m_config m) \<longrightarrow>
            update_value m linked None now = (m_value m, m))
       \<and> (now - m_last_update m \<ge> update_interval (m_config m) \<longrightarrow>
            update_value m linked None now =
              (let r = update_value_by_scenario m linked None now;
                   v = map_option (\<lambda>x. py_round (clamp (fst (value_range (m_config m)))
                                                     (snd (value_range (m_config m))) x) 2) (fst r)
               in (v, m\<lparr>m_last_update := now, m_value := v, m_scenario_state := snd r\<rparr>)))
       \<and> (now - m_last_update m \<ge> update_interval (m_config m) \<and> m_scenario m = Some scen
            \<and> scen (build_metric_context m linked None now) = (Returned (Some x), st) \<longrightarrow>
            update_value m linked None now =
              (Some (py_round (clamp (fst (value_range (m_config m))) (snd (value_range (m_config m))) x) 2),
               m\<lparr>m_last_update := now,
                 m_value := Some (py_round (clamp (fst (value_range (m_config m)))
                                             (snd (value_range (m_config m))) x) 2),
                 m_scenario_state := st\<rparr>))
       \<and> (\<forall>e t. m_last_update (snd (update_value m linked (Some e) t)) = m_last_update m)
       \<and> (\<forall>ev t. m_last_update (snd (update_value m linked ev t)) \<noteq> m_last_update m \<longrightarrow>
            ev = None \<and> \<not> t < m_start_time m
            \<and> (case ttl (m_config m) of Inf \<Rightarrow> True | Finite d \<Rightarrow> \<not> t > m_start_time m + d)
            \<and> t - m_last_update m \<ge> update_interval (m_config m)
            \<and> m_last_update (snd (update_value m linked ev t)) = t)"
proof (intro conjI allI impI)
  assume "now - m_last_update m < update_interval (m_config m)"
  then show "update_value m linked None now = (m_value m, m)"
    using started alive by (simp add: update_value_def split: ttl_value.splits)
next
  assume "now - m_last_update m \<ge> update_interval (m_config m)"
  then show "update_value m linked None now =
              (let r = update_value_by_scenario m linked None now;
                   v = map_option (\<lambda>x. py_round (clamp (fst (value_range (m_config m)))
                                                     (snd (value_range (m_config m))) x) 2) (fst r)
               in (v, m\<lparr>m_last_update := now, m_value := v, m_scenario_state := snd r\<rparr>))"
    using started alive by (simp add: update_value_def compute_value_eq Let_def split: ttl_value.splits)
next
  assume a: "now - m_last_update m \<ge> update_interval (m_config m) \<and> m_scenario m = Some scen
            \<and> scen (build_metric_context m linked None now) = (Returned (Some x), st)"
  then have "update_value_by_scenario m linked None now = (Some x, st)"
    by (simp add: update_value_by_scenario_def)
  then show "update_value m linked None now =
              (Some (py_round (clamp (fst (value_range (m_config m))) (snd (value_range (m_config m))) x) 2),
               m\<lparr>m_last_update := now,
                 m_value := Some (py_round (clamp (fst (value_range (m_config m)))
                                             (snd (value_range (m_config m))) x) 2),
                 m_scenario_state := st\<rparr>)"
    using a started alive by (simp add: update_value_def compute_value_eq Let_def split: ttl_value.splits)
next
  fix e t
  show "m_last_update (snd (update_value m linked (Some e) t)) = m_last_update m"
    by (simp add: update_value_def compute_value_eq Let_def)
next
  fix ev t
  assume ch: "m_last_update (snd (update_value m linked ev t)) \<noteq> m_last_update m"
  then show "ev = None" "\<not> t < m_start_time m"
    "case ttl (m_config m) of Inf \<Rightarrow> True | Finite d \<Rightarrow> \<not> t > m_start_time m + d"
    "t - m_last_update m \<ge> update_interval (m_config m)"
    "m_last_update (snd (update_value m linked ev t)) = t"
    by (auto simp: update_value_def compute_value_eq Let_def split: option.splits if_splits ttl_value.splits)
qed

text \<open>
  Claim C10. A call with an event passes none of the three time gates: whatever \<open>now\<close> is
  (before the start time, after the time to live, within the update interval), the scenario
  is invoked, and its result is clamped, rounded, stored and returned; \<open>last_update\<close> is
  left as it was. The value returned is a whole hundredth within \<open>0.005\<close> of the clamped
  result of the scenario.
\<close>

theorem update_value_event_skips_gates:
  "update_value m linked (Some e) now =
     (let r = update_value_by_scenario m linked (Some e) now;
          v = map_option (\<lambda>x. py_round (clamp (fst (value_range (m_config m)))
                                            (snd (value_range (m_config m))) x) 2) (fst r)
      in (v, m\<lparr>m_value := v, m_scenario_state := snd r\<rparr>))
   \<and> m_last_update (snd (update_value m linked (Some e) now)) = m_last_update m
   \<and> (m_scenario m = Some scen \<and> scen (build_metric_context m linked (Some e) now) = (Returned (Some x), st) \<longrightarrow>
        update_value m linked (Some e) now =
          (Some (py_round (clamp (fst (value_range (m_config m))) (snd (value_range (m_config m))) x) 2),
           m\<lparr>m_value := Some (py_round (clamp (fst (value_range (m_config m))) (snd (value_range (m_config m))) x) 2),
             m_scenario_state := st\<rparr>)
        \<and> (\<exists>v. fst (update_value m linked (Some e) now) = Some v
               \<and> m_value (snd (update_value m linked (Some e) now)) = Some v
               \<and> two_decimals v
               \<and> \<bar>v - clamp (fst (value_range (m_config m))) (snd (value_range (m_config m))) x\<bar> \<le> 1 / 200))"
proof (intro conjI impI)
  show "update_value m linked (Some e) now =
     (let r = update_value_by_scenario m linked (Some e) now;
          v = map_option (\<lambda>x. py_round (clamp (fst (value_range (m_config m)))
                                            (snd (value_range (m_config m))) x) 2) (fst r)
      in (v, m\<lparr>m_value := v, m_scenario_state := snd r\<rparr>))"
    by (simp add: update_value_def compute_value_eq Let_def)
  show "m_last_update (snd (update_value m linked (Some e) now)) = m_last_update m"
    by (simp add: update_value_def compute_value_eq Let_def)
next
  let ?v = "py_round (clamp (fst (value_range (m_config m))) (snd (value_range (m_config m))) x) 2"
  assume a: "m_scenario m = Some scen \<and> scen (build_metric_context m linked (Some e) now) = (Returned (Some x), st)"
  then show run: "update_value m linked (Some e) now = (Some ?v, m\<lparr>m_value := Some ?v, m_scenario_state := st\<rparr>)"
    by (simp add: update_value_def compute_value_eq Let_def update_value_by_scenario_def)
  have "two_decimals ?v" by (rule py_round_is_two_decimals)
  moreover have "\<bar>?v - clamp (fst (value_range (m_config m))) (snd (value_range (m_config m))) x\<bar> \<le> 1 / 200"
    by (rule py_round_close)
  ultimately show "\<exists>v. fst (update_value m linked (Some e) now) = Some v
               \<and> m_value (snd (update_value m linked (Some e) now)) = Some v
               \<and> two_decimals v
               \<and> \<bar>v - clamp (fst (value_range (m_config m))) (snd (value_range (m_config m))) x\<bar> \<le> 1 / 200"
    unfolding run by simp
qed

theorem update_value_interval_gate_witness:
  "update_value (load_metric (Some 7) 1000) [] None 1005 = (Some 7, load_metric (Some 7) 1000)
   \<and> update_value (load_metric (Some 7) 1000) [] None 1010 = (Some 100, load_metric (Some 100) 1010)
   \<and> m_last_update (snd (update_value (load_metric (Some 7) 1000) []
         (Some \<lparr>event_name = ''peak'', event_data = None, event_source = None\<rparr>) 1010)) = 1000"
proof -
  let ?m = "load_metric (Some 7) 1000"
  have g1: "\<not> 1005 < m_start_time ?m" and g2: "\<not> 1010 < m_start_time ?m"
    and a1: "case ttl (m_config ?m) of Inf \<Rightarrow> True | Finite t \<Rightarrow> \<not> 1005 > m_start_time ?m + t"
    and a2: "case ttl (m_config ?m) of Inf \<Rightarrow> True | Finite t \<Rightarrow> \<not> 1010 > m_start_time ?m + t"
    by (simp_all add: load_metric_def new_metric_def gauge_config_def)
  have "update_value ?m [] None 1005 = (Some 7, ?m)"
    using update_value_interval_gate [OF g1 a1, of "[]"]
    by (simp add: load_metric_def new_metric_def gauge_config_def)
  moreover have "update_value ?m [] None 1010 = (Some 100, load_metric (Some 100) 1010)"
  proof -
    have pre: "1010 - m_last_update ?m \<ge> update_interval (m_config ?m) \<and> m_scenario ?m = Some (const_scenario 250)
        \<and> const_scenario 250 (build_metric_context ?m [] None 1010) = (Returned (Some 250), Map.empty)"
      by (simp add: load_metric_def new_metric_def gauge_config_def const_scenario_def build_metric_context_def)
    have "update_value ?m [] None 1010 =
              (Some (py_round (clamp (fst (value_range (m_config ?m))) (snd (value_range (m_config ?m))) 250) 2),
               ?m\<lparr>m_last_update := 1010,
                 m_value := Some (py_round (clamp (fst (value_range (m_config ?m)))
                                             (snd (value_range (m_config ?m))) 250) 2),
                 m_scenario_state := Map.empty\<rparr>)"
      using update_value_interval_gate [OF g2 a2, of "[]" "const_scenario 250" 250 Map.empty,
          THEN conjunct2, THEN conjunct2, THEN conjunct1] pre
      by blast
    then show ?thesis
      by (simp add: load_metric_def new_metric_def gauge_config_def clamp_def py_round_def round_half_even_def)
  qed
  moreover have "m_last_update (snd (update_value ?m []
         (Some \<lparr>event_name = ''peak'', event_data = None, event_source = None\<rparr>) 1010)) = 1000"
    using update_value_interval_gate [OF g1 a1, of "[]"]
    by (simp add: load_metric_def new_metric_def)
  ultimately show ?thesis by blast
qed

theorem update_value_event_skips_gates_witness:
  "update_value (new_metric (gauge_config ''load'' (0, 100)) (Some (const_scenario (1 / 8))) 5000) [] None 1000
     = (None, new_metric (gauge_config ''load'' (0, 100)) (Some (const_scenario (1 / 8))) 5000)
   \<and> fst (update_value (new_metric (gauge_config ''load'' (0, 100)) (Some (const_scenario (1 / 8))) 5000) []
         (Some \<lparr>event_name = ''peak'', event_data = None, event_source = None\<rparr>) 1000) = Some (3 / 25)
   \<and> update_value (new_metric ((gauge_config ''load'' (0, 100))\<lparr>ttl := Finite 60\<rparr>) (Some (const_scenario 250)) 0) [] None 1000
     = (None, new_metric ((gauge_config ''load'' (0, 100))\<lparr>ttl := Finite 60\<rparr>) (Some (const_scenario 250)) 0)
   \<and> fst (update_value (new_metric ((gauge_config ''load'' (0, 100))\<lparr>ttl := Finite 60\<rparr>) (Some (const_scenario 250)) 0) []
         (Some \<lparr>event_name = ''peak'', event_data = None, event_source = None\<rparr>) 1000) = Some 100"
proof -
  let ?e = "\<lparr>event_name = ''peak'', event_data = None, event_source = None\<rparr>"
  let ?m = "new_metric (gauge_config ''load'' (0, 100)) (Some (const_scenario (1 / 8))) 5000"
  let ?k = "new_metric ((gauge_config ''load'' (0, 100))\<lparr>ttl := Finite 60\<rparr>) (Some (const_scenario 250)) 0"
  have "update_value ?m [] None 1000 = (None, ?m)"
    by (simp add: update_value_def new_metric_def gauge_config_def)
  moreover have "fst (update_value ?m [] (Some ?e) 1000) = Some (3 / 25)"
  proof -
    have "m_scenario ?m = Some (const_scenario (1 / 8))
        \<and> const_scenario (1 / 8) (build_metric_context ?m [] (Some ?e) 1000) = (Returned (Some (1 / 8)), Map.empty)"
      by (simp add: new_metric_def const_scenario_def build_metric_context_def)
    then have "fst (update_value ?m [] (Some ?e) 1000) =
        Some (py_round (clamp (fst (value_range (m_config ?m))) (snd (value_range (m_config ?m))) (1 / 8)) 2)"
      using update_value_event_skips_gates [of ?m "[]" ?e 1000 "const_scenario (1 / 8)" "1 / 8" Map.empty,
          THEN conjunct2, THEN conjunct2]
      by (simp only: fst_conv)
    then show ?thesis
      by (simp add: new_metric_def gauge_config_def clamp_def py_round_def round_half_even_def)
  qed
  moreover have "update_value ?k [] None 1000 = (None, ?k)"
    by (simp add: update_value_def new_metric_def gauge_config_def)
  moreover have "fst (update_value ?k [] (Some ?e) 1000) = Some 100"
  proof -
    have "m_scenario ?k = Some (const_scenario 250)
        \<and> const_scenario 250 (build_metric_context ?k [] (Some ?e) 1000) = (Returned (Some 250), Map.empty)"
      by (simp add: new_metric_def const_scenario_def build_metric_context_def)
    then have "fst (update_value ?k [] (Some ?e) 1000) =
        Some (py_round (clamp (fst (value_range (m_config ?k))) (snd (value_range (m_config ?k))) 250) 2)"
      using update_value_event_skips_gates [of ?k "[]" ?e 1000 "const_scenario 250" 250 Map.empty,
          THEN conjunct2, THEN conjunct2]
      by (simp only: fst_conv)
    then show ?thesis
      by (simp add: new_metric_def gauge_config_def clamp_def py_round_def round_half_even_def)
  qed
  ultimately show ?thesis by blast
qed

section \<open>Scenarios\<close>




lemma feature_toggle_started:
  assumes valid: "0 \<le> sa" "0 < d" "0 < i"
    and ts: "st ''start_timestamp'' = Some (PFloat t0)"
  shows "feature_toggle (with_storage c st) t sa d i onv offv src =
     (let is_on = toggle_is_on t0 sa d i t in
      (Inr (if is_on then onv else offv),
       (if t - t0 < sa \<or> py_eq_bool is_on (storage_get st ''feature_active'' (PBool False)) then st
        else storage_set st ''feature_active'' (PBool is_on)),
       (if t - t0 < sa \<or> py_eq_bool is_on (storage_get st ''feature_active'' (PBool False)) then []
        else [\<lparr>event_name = (if is_on then ''feature_on'' else ''feature_off''),
               event_data = Some [(''timestamp'', PFloat t)], event_source = src\<rparr>])))"
  using valid ts
  by (simp add: feature_toggle_def with_storage_def storage_get_def as_float_def toggle_is_on_def Let_def)


lemma flag_is_eq: "flag_is st prev \<Longrightarrow> py_eq_bool b (storage_get st ''feature_active'' (PBool False)) = (b = prev)"
  by (auto simp: flag_is_def py_eq_bool_def as_float_def)

lemma feature_toggle_calls_started:
  assumes valid: "0 \<le> sa" "0 < d" "0 < i"
  shows "sorted (lastt # ts) \<Longrightarrow> st ''start_timestamp'' = Some (PFloat t0) \<Longrightarrow> flag_is st prev
     \<Longrightarrow> (prev \<longrightarrow> sa \<le> lastt - t0)
     \<Longrightarrow> feature_toggle_calls c sa d i onv offv src st ts = toggle_expected t0 sa d i onv offv src prev ts"
proof (induction ts arbitrary: st prev lastt)
  case Nil
  then show ?case by simp
next
  case (Cons t ts)
  let ?on = "toggle_is_on t0 sa d i t"
  have le: "lastt \<le> t" and srt: "sorted (t # ts)" using Cons.prems(1) by auto
  have pre: "t - t0 < sa \<Longrightarrow> \<not> prev \<and> \<not> ?on"
    using Cons.prems(4) le by (auto simp: toggle_is_on_def)
  let ?same = "t - t0 < sa \<or> py_eq_bool ?on (storage_get st ''feature_active'' (PBool False))"
  have same_iff: "?same = (?on = prev)"
    using flag_is_eq [OF Cons.prems(3), of ?on] pre by auto
  let ?st' = "if ?same then st else storage_set st ''feature_active'' (PBool ?on)"
  have ts': "?st' ''start_timestamp'' = Some (PFloat t0)"
    using Cons.prems(2) by (simp add: storage_set_def)
  have fl': "flag_is ?st' ?on"
    using Cons.prems(3) same_iff by (auto simp: flag_is_def storage_set_def storage_get_def)
  have on': "?on \<longrightarrow> sa \<le> t - t0"
    by (auto simp: toggle_is_on_def)
  have IH: "feature_toggle_calls c sa d i onv offv src ?st' ts = toggle_expected t0 sa d i onv offv src ?on ts"
    by (rule Cons.IH [OF srt ts' fl' on'])
  show ?case
    using IH same_iff
    by (simp add: feature_toggle_started [where st = st and ?t0.0 = t0, OF valid Cons.prems(2)] Let_def)
qed

lemma feature_toggle_first:
  assumes "0 \<le> sa" "0 < d" "0 < i"
    and "storage_get st ''start_timestamp'' PNone = PNone"
  shows "feature_toggle (with_storage c st) t sa d i onv offv src =
         feature_toggle (with_storage c (storage_set st ''start_timestamp'' (PFloat t))) t sa d i onv offv src"
  using assms
  by (simp add: feature_toggle_def with_storage_def storage_get_def storage_set_def)

text \<open>
  Claim C5. With valid parameters, a storage that holds no start timestamp and no active
  flag, and calls at non-decreasing times \<open>t0, ...\<close>: the first call stores
  \<open>start_timestamp = t0\<close>; every call returns \<open>off_value\<close> while \<open>elapsed < start_time\<close>, and
  afterwards \<open>on_value\<close> exactly when \<open>(elapsed - start_time) mod (duration + interval) <
  duration\<close>; and each call emits one \<open>feature_on\<close> (or \<open>feature_off\<close>) event when its
  on/off state differs from that of the call before (off before the first call), and no event
  when it does not.
\<close>

theorem feature_toggle_transitions:
  assumes valid: "0 \<le> sa" "0 < d" "0 < i"
    and fresh: "storage_get st ''start_timestamp'' PNone = PNone"
    and inactive: "storage_get st ''feature_active'' (PBool False) = PBool False"
    and mono: "sorted (t0 # ts)"
  shows "feature_toggle_calls c sa d i onv offv src st (t0 # ts)
           = toggle_expected t0 sa d i onv offv src False (t0 # ts)
       \<and> fst (snd (feature_toggle (with_storage c st) t0 sa d i onv offv src)) ''start_timestamp''
           = Some (PFloat t0)
       \<and> (\<forall>st' t. st' ''start_timestamp'' = Some (PFloat t0) \<longrightarrow>
             fst (feature_toggle (with_storage c st') t sa d i onv offv src)
               = Inr (if t - t0 < sa then offv
                      else if py_fmod (t - t0 - sa) (d + i) < d then onv else offv))"
proof (intro conjI allI impI)
  let ?st1 = "storage_set st ''start_timestamp'' (PFloat t0)"
  have s1: "?st1 ''start_timestamp'' = Some (PFloat t0)"
    by (simp add: storage_set_def)
  have f1: "flag_is ?st1 False"
    using inactive by (simp add: flag_is_def storage_set_def storage_get_def)
  have "feature_toggle_calls c sa d i onv offv src st (t0 # ts)
      = feature_toggle_calls c sa d i onv offv src ?st1 (t0 # ts)"
    by (simp add: feature_toggle_first [OF valid fresh])
  also have "\<dots> = toggle_expected t0 sa d i onv offv src False (t0 # ts)"
    using feature_toggle_calls_started [OF valid, of t0 "t0 # ts" ?st1 t0 False] mono s1 f1
    by simp
  finally show "feature_toggle_calls c sa d i onv offv src st (t0 # ts)
           = toggle_expected t0 sa d i onv offv src False (t0 # ts)" .
  show "fst (snd (feature_toggle (with_storage c st) t0 sa d i onv offv src)) ''start_timestamp''
           = Some (PFloat t0)"
    unfolding feature_toggle_first [OF valid fresh]
      feature_toggle_started [where st = ?st1 and ?t0.0 = t0, OF valid s1]
    by (simp add: Let_def storage_set_def)
next
  fix st' t
  assume "st' ''start_timestamp'' = Some (PFloat t0)"
  then show "fst (feature_toggle (with_storage c st') t sa d i onv offv src)
               = Inr (if t - t0 < sa then offv
                      else if py_fmod (t - t0 - sa) (d + i) < d then onv else offv)"
    by (simp add: feature_toggle_started [where st = st' and ?t0.0 = t0, OF valid] Let_def
        toggle_is_on_def)
qed

theorem feature_toggle_transitions_witness:
  "feature_toggle_calls (plain_context (gauge_config ''flag'' (0, 1)) None) 10 20 10 1 0 None Map.empty
     [1000, 1005, 1015, 1025, 1035, 1045]
   = [(Inr 0, []),
      (Inr 0, []),
      (Inr 1, [\<lparr>event_name = ''feature_on'', event_data = Some [(''timestamp'', PFloat 1015)],
                event_source = None\<rparr>]),
      (Inr 1, []),
      (Inr 0, [\<lparr>event_name = ''feature_off'', event_data = Some [(''timestamp'', PFloat 1035)],
                event_source = None\<rparr>]),
      (Inr 1, [\<lparr>event_name = ''feature_on'', event_data = Some [(''timestamp'', PFloat 1045)],
                event_source = None\<rparr>])]"
proof -
  have fresh: "storage_get Map.empty ''start_timestamp'' PNone = PNone"
    and inactive: "storage_get Map.empty ''feature_active'' (PBool False) = PBool False"
    by (simp_all add: storage_get_def)
  have mono: "sorted [1000, 1005, 1015, 1025, 1035, 1045 :: real]" by simp
  have "feature_toggle_calls (plain_context (gauge_config ''flag'' (0, 1)) None) 10 20 10 1 0 None Map.empty
     [1000, 1005, 1015, 1025, 1035, 1045]
     = toggle_expected 1000 10 20 10 1 0 None False [1000, 1005, 1015, 1025, 1035, 1045]"
    using feature_toggle_transitions [OF _ _ _ fresh inactive mono, of 10 20 10] by simp
  then show ?thesis
    by (simp add: toggle_is_on_def py_fmod_def Let_def)
qed

text \<open>
  Claim C6, on the input of the repository's test of a failing scenario: the event
  \<open>failing_event\<close> is configured with a callable that raises, scenario data \<open>{}\<close> and a
  duration of 60 seconds; the storage is empty, the time is 1000 and the draw of \<open>random()\<close>
  is 0.15. The call returns the uniform sample \<open>15\<close> of the range \<open>(0, 100)\<close>, and the
  storage it leaves holds \<open>last_event_params\<close>, \<open>last_event_timestamp\<close> and
  \<open>last_event_duration\<close> but no \<open>last_event_scenario\<close>: that key is written only after
  the scenario has returned.
\<close>

theorem switch_scenario_failing_event:
  "fst (switch_scenario_by_events raising_env failing_event_context 1000 (3 / 20)
          failing_event_config None None) = Inr 15
   \<and> snd (switch_scenario_by_events raising_env failing_event_context 1000 (3 / 20)
          failing_event_config None None) ''last_event_params'' = Some (PDict [])
   \<and> snd (switch_scenario_by_events raising_env failing_event_context 1000 (3 / 20)
          failing_event_config None None) ''last_event_timestamp'' = Some (PFloat 1000)
   \<and> snd (switch_scenario_by_events raising_env failing_event_context 1000 (3 / 20)
          failing_event_config None None) ''last_event_duration'' = Some (PFloat 60)
   \<and> snd (switch_scenario_by_events raising_env failing_event_context 1000 (3 / 20)
          failing_event_config None None) ''last_event_scenario'' = None"
  by (simp add: switch_scenario_by_events_def raising_env_def failing_event_context_def
      failing_event_config_def gauge_config_def with_storage_def storage_set_def uniform_def Let_def)

section \<open>The emulated host\<close>

lemma update_value_config [simp]:
  "m_config (snd (update_value m linked ev now)) = m_config m"
  "m_scenario (snd (update_value m linked ev now)) = m_scenario m"
  by (auto simp: update_value_def compute_value_eq Let_def split: option.splits)

lemma ubs_counter_total:
  assumes "\<forall>scen. m_scenario m = Some scen \<longrightarrow> keeps_counter_total scen"
  shows "snd (update_value_by_scenario m linked ev now) ''counter_total'' = m_scenario_state m ''counter_total''"
proof (cases "m_scenario m")
  case None
  then show ?thesis by (simp add: update_value_by_scenario_def)
next
  case (Some scen)
  then have "snd (scen c) ''counter_total'' = ctx_storage c ''counter_total''" for c
    using assms by (simp add: keeps_counter_total_def)
  from this [of "build_metric_context m linked ev now"] Some show ?thesis
    by (auto simp: update_value_by_scenario_def build_metric_context_def
        split: prod.splits scenario_result.splits)
qed

lemma update_value_counter_total:
  assumes "\<forall>scen. m_scenario m = Some scen \<longrightarrow> keeps_counter_total scen"
  shows "m_scenario_state (snd (update_value m linked ev now)) ''counter_total''
       = m_scenario_state m ''counter_total''"
proof -
  have "snd (update_value_by_scenario (m\<lparr>m_last_update := t\<rparr>) linked ev now) ''counter_total''
      = m_scenario_state m ''counter_total''" for t
    using ubs_counter_total [of "m\<lparr>m_last_update := t\<rparr>" linked ev now] assms by simp
  moreover note ubs_counter_total [OF assms, of linked ev now]
  ultimately show ?thesis
    by (auto simp: update_value_def compute_value_eq Let_def split: option.splits)
qed

lemma publish_value_config:
  "publish_value m v = (r, m') \<Longrightarrow> m_config m' = m_config m \<and> m_scenario m' = m_scenario m"
  by (auto simp: publish_value_def Let_def split: if_splits option.splits)

lemma publish_value_counter:
  assumes "metric_type (m_config m) = COUNTER"
    and "as_float (storage_get (m_scenario_state m) ''counter_total'' (PFloat 0)) = Some t"
  shows "publish_value m v =
      (Inr (t + v), m\<lparr>m_scenario_state := storage_set (m_scenario_state m) ''counter_total'' (PFloat (t + v))\<rparr>)"
  using assms by (simp add: publish_value_def Let_def)

lemma counter_ok_update_other:
  assumes "counter_ok n k ms" "i < length ms" "i \<noteq> k" "m_config m' = m_config (ms ! i)"
  shows "counter_ok n k (ms[i := m'])"
proof -
  have "map (\<lambda>m. name (m_config m)) (ms[i := m']) = map (\<lambda>m. name (m_config m)) ms"
    using assms(2,4) by (simp add: map_update list_update_same_conv)
  then show ?thesis using assms by (simp add: counter_ok_def)
qed

lemma counter_ok_update_self:
  assumes "counter_ok n k ms" "m_config m' = m_config (ms ! k)" "m_scenario m' = m_scenario (ms ! k)"
  shows "counter_ok n k (ms[k := m'])"
proof -
  have k: "k < length ms" using assms(1) by (simp add: counter_ok_def)
  have "map (\<lambda>m. name (m_config m)) (ms[k := m']) = map (\<lambda>m. name (m_config m)) ms"
    using k assms(2) by (simp add: map_update list_update_same_conv)
  then show ?thesis using assms k by (simp add: counter_ok_def)
qed

lemma other_name:
  assumes "counter_ok n k ms" "i < length ms" "i \<noteq> k"
  shows "name (m_config (ms ! i)) \<noteq> n"
proof -
  have d: "distinct (map (\<lambda>m. name (m_config m)) ms)" and k: "k < length ms"
    and nk: "name (m_config (ms ! k)) = n"
    using assms(1) by (simp_all add: counter_ok_def)
  have "(map (\<lambda>m. name (m_config m)) ms ! i = map (\<lambda>m. name (m_config m)) ms ! k) = (i = k)"
    by (rule nth_eq_iff_index_eq [OF d]) (simp_all add: assms(2) k)
  then show ?thesis using assms(2,3) k nk by simp
qed

lemma entries_of_append [simp]:
  "entries_of n (es @ es') = entries_of n es @ entries_of n es'"
  by (simp add: entries_of_def)

lemma entries_of_single:
  "entries_of n [(n', v, p)] = (if n' = n then [(v, p)] else [])"
  by (simp add: entries_of_def)

lemma total_is_update_other:
  "i \<noteq> k \<Longrightarrow> total_is k (ms[i := m']) t = total_is k ms t"
  by (simp add: total_is_def)

lemma loop_counter:
  "counter_ok n k ms \<Longrightarrow> total_is k ms t \<Longrightarrow> distinct js \<Longrightarrow> \<forall>i\<in>set js. i < length ms
   \<Longrightarrow> update_metrics_loop clock js ms es = (err, ms', es')
   \<Longrightarrow> counter_ok n k ms'
       \<and> (\<exists>vs. length vs \<le> 1 \<and> (k \<notin> set js \<longrightarrow> vs = [])
             \<and> entries_of n es' = entries_of n es @ zip vs (running_sums t vs)
             \<and> total_is k ms' (t + sum_list vs))"
proof (induction js arbitrary: ms es t)
  case Nil
  then show ?case by (auto intro: exI [of _ "[]"])
next
  case (Cons i rest)
  let ?m = "ms ! i"
  obtain r m1 where uv: "update_value ?m (linked_of ms ?m) None (clock i) = (r, m1)"
    by (cases "update_value ?m (linked_of ms ?m) None (clock i)")
  have cfg1: "m_config m1 = m_config ?m" and scen1: "m_scenario m1 = m_scenario ?m"
    using update_value_config [of ?m "linked_of ms ?m" None "clock i"] uv by simp_all
  have i_lt: "i < length ms" and rest_lt: "\<forall>j\<in>set rest. j < length ms"
    and dist: "distinct rest" and i_notin: "i \<notin> set rest"
    using Cons.prems(3,4) by auto
  have k_lt: "k < length ms" using Cons.prems(1) by (simp add: counter_ok_def)
  show ?case
  proof (cases "i = k")
    case True
    have keeps: "\<forall>scen. m_scenario ?m = Some scen \<longrightarrow> keeps_counter_total scen"
      using Cons.prems(1) True by (simp add: counter_ok_def)
    have "m_scenario_state m1 ''counter_total'' = m_scenario_state ?m ''counter_total''"
      using update_value_counter_total [OF keeps, of "linked_of ms ?m" None "clock i"] uv by simp
    then have tot1: "as_float (storage_get (m_scenario_state m1) ''counter_total'' (PFloat 0)) = Some t"
      using Cons.prems(2) True by (simp add: total_is_def storage_get_def)
    have typ1: "metric_type (m_config m1) = COUNTER" and nm1: "name (m_config m1) = n"
      using Cons.prems(1) True cfg1 by (simp_all add: counter_ok_def)
    have k_rest: "k \<notin> set rest" using i_notin True by simp
    show ?thesis
    proof (cases r)
      case None
      let ?ms1 = "ms[i := m1]"
      have ok1: "counter_ok n k ?ms1"
        using counter_ok_update_self [of n k ms m1] Cons.prems(1) cfg1 scen1 True by simp
      have t1: "total_is k ?ms1 t"
        using tot1 True k_lt by (simp add: total_is_def)
      have run: "update_metrics_loop clock rest ?ms1 es = (err, ms', es')"
        using Cons.prems(5) uv None by simp
      from Cons.IH [OF ok1 t1 dist _ run] rest_lt k_rest
      have "counter_ok n k ms'" and "entries_of n es' = entries_of n es" and "total_is k ms' t"
        by auto
      then show ?thesis by (auto intro: exI [of _ "[]"])
    next
      case (Some v)
      let ?m2 = "m1\<lparr>m_scenario_state := storage_set (m_scenario_state m1) ''counter_total'' (PFloat (t + v))\<rparr>"
      let ?ms2 = "ms[i := ?m2]"
      have pub: "publish_value m1 v = (Inr (t + v), ?m2)"
        by (rule publish_value_counter [OF typ1 tot1])
      have ok2: "counter_ok n k ?ms2"
        using counter_ok_update_self [of n k ms ?m2] Cons.prems(1) cfg1 scen1 True by simp
      have t2: "total_is k ?ms2 (t + v)"
        using True k_lt by (simp add: total_is_def storage_get_def storage_set_def as_float_def)
      have run: "update_metrics_loop clock rest ?ms2 (es @ [(n, v, t + v)]) = (err, ms', es')"
        using Cons.prems(5) uv Some pub nm1 by simp
      from Cons.IH [OF ok2 t2 dist _ run] rest_lt k_rest
      have "counter_ok n k ms'" and "entries_of n es' = entries_of n es @ [(v, t + v)]"
        and "total_is k ms' (t + v)"
        by (auto simp: entries_of_single)
      then show ?thesis using True
        by (intro conjI exI [of _ "[v]"]) simp_all
    qed
  next
    case False
    have nm_i: "name (m_config ?m) \<noteq> n"
      by (rule other_name [OF Cons.prems(1) i_lt False])
    have step: "counter_ok n k (ms[i := m'])" "total_is k (ms[i := m']) t"
      "\<forall>j\<in>set rest. j < length (ms[i := m'])"
      if "m_config m' = m_config ?m" for m'
      using counter_ok_update_other [OF Cons.prems(1) i_lt False that] Cons.prems(2) rest_lt False
      by (simp_all add: total_is_update_other)
    have tail: ?thesis if run: "update_metrics_loop clock rest (ms[i := m']) es0 = (err, ms', es')"
      and c: "m_config m' = m_config ?m" and e: "entries_of n es0 = entries_of n es" for m' es0
    proof -
      from Cons.IH [OF step(1) [OF c] step(2) [OF c] dist step(3) [OF c] run]
      obtain vs where "counter_ok n k ms'" "length vs \<le> 1" "k \<notin> set rest \<longrightarrow> vs = []"
        "entries_of n es' = entries_of n es0 @ zip vs (running_sums t vs)"
        "total_is k ms' (t + sum_list vs)"
        by blast
      then show ?thesis using e False by auto
    qed
    show ?thesis
    proof (cases r)
      case None
      then have "update_metrics_loop clock rest (ms[i := m1]) es = (err, ms', es')"
        using Cons.prems(5) uv by simp
      then show ?thesis by (rule tail) (simp_all add: cfg1)
    next
      case (Some v)
      obtain pr m2 where pub: "publish_value m1 v = (pr, m2)"
        by (cases "publish_value m1 v")
      have cfg2: "m_config m2 = m_config ?m"
        using publish_value_config [OF pub] cfg1 by simp
      show ?thesis
      proof (cases pr)
        case (Inl e)
        then have res: "err = Some e" "ms' = ms[i := m2]" "es' = es"
          using Cons.prems(5) uv Some pub by simp_all
        show ?thesis
          using step(1,2) [OF cfg2] res by (auto intro: exI [of _ "[]"])
      next
        case (Inr p)
        then have "update_metrics_loop clock rest (ms[i := m2]) (es @ [(name (m_config m2), v, p)])
             = (err, ms', es')"
          using Cons.prems(5) uv Some pub by simp
        then show ?thesis
          by (rule tail) (simp_all add: cfg2 entries_of_single nm_i)
      qed
    qed
  qed
qed

lemma map_of_fold_update:
  "map_of (fold (\<lambda>(n, v, p). AList.update n p) es d) n =
     (case entries_of n es of [] \<Rightarrow> map_of d n | x # xs \<Rightarrow> Some (snd (last (x # xs))))"
proof (induction es arbitrary: d)
  case Nil
  then show ?case by (simp add: entries_of_def)
next
  case (Cons e es)
  obtain n' v p where e: "e = (n', v, p)" by (cases e)
  show ?case
    using Cons.IH [of "AList.update n' p d"]
    by (auto simp: e entries_of_def update_conv' split: list.splits)
qed

lemma map_of_metrics_data:
  "map_of (metrics_data_of es) n =
     (case entries_of n es of [] \<Rightarrow> None | x # xs \<Rightarrow> Some (snd (last (x # xs))))"
  using map_of_fold_update [of es "[]" n] by (simp add: metrics_data_of_def split: list.splits)

lemma tick_counter:
  assumes ok: "counter_ok n k (h_metrics h)" and tot: "total_is k (h_metrics h) t"
    and run: "update_metrics_entries clock h = (batch, h', es)"
  shows "counter_ok n k (h_metrics h')
       \<and> (\<exists>vs. length vs \<le> 1
             \<and> entries_of n es = zip vs (running_sums t vs)
             \<and> total_is k (h_metrics h') (t + sum_list vs)
             \<and> (map_of batch n = None \<or> (\<exists>v. vs = [v] \<and> map_of batch n = Some (t + v))))"
proof (cases "h_is_running h")
  case False
  then have "batch = []" "h' = h" "es = []"
    using run by (simp_all add: update_metrics_entries_def)
  then show ?thesis using ok tot by (auto intro: exI [of _ "[]"] simp: entries_of_def)
next
  case True
  obtain err ms' es' where loop:
    "update_metrics_loop clock [0..<length (h_metrics h)] (h_metrics h) [] = (err, ms', es')"
    by (cases "update_metrics_loop clock [0..<length (h_metrics h)] (h_metrics h) []")
  have res: "h_metrics h' = ms'" "es = es'"
    "batch = (case err of None \<Rightarrow> metrics_data_of es' | Some e \<Rightarrow> [])"
    using run True loop by (auto simp: update_metrics_entries_def split: option.splits)
  from loop_counter [OF ok tot _ _ loop]
  obtain vs where ok': "counter_ok n k ms'" and len: "length vs \<le> 1"
    and ent: "entries_of n es' = zip vs (running_sums t vs)"
    and tot': "total_is k ms' (t + sum_list vs)"
    by (auto simp: entries_of_def)
  have "map_of batch n = None \<or> (\<exists>v. vs = [v] \<and> map_of batch n = Some (t + v))"
  proof (cases err)
    case (Some e)
    then show ?thesis using res by simp
  next
    case None
    then have b: "map_of batch n =
        (case entries_of n es' of [] \<Rightarrow> None | x # xs \<Rightarrow> Some (snd (last (x # xs))))"
      using res map_of_metrics_data [of es' n] by simp
    show ?thesis
    proof (cases vs)
      case Nil
      then show ?thesis using b ent by simp
    next
      case (Cons v ws)
      then have "vs = [v]" using len by simp
      then show ?thesis using b ent by simp
    qed
  qed
  then show ?thesis using ok' len ent tot' res by auto
qed

lemma deliver_counter:
  assumes ok: "counter_ok n k (h_metrics h)" and tot: "total_is k (h_metrics h) t"
  shows "counter_ok n k (h_metrics (deliver_event i e now h))
       \<and> total_is k (h_metrics (deliver_event i e now h)) t"
proof (cases "i < length (h_metrics h)")
  case False
  then show ?thesis using ok tot by (simp add: deliver_event_def)
next
  case True
  let ?ms = "h_metrics h"
  let ?m' = "snd (update_value (?ms ! i) (linked_of ?ms (?ms ! i)) (Some e) now)"
  have hm: "h_metrics (deliver_event i e now h) = ?ms[i := ?m']"
    using True by (simp add: deliver_event_def)
  show ?thesis
  proof (cases "i = k")
    case False
    then show ?thesis
      using counter_ok_update_other [OF ok True False, of ?m'] tot hm
      by (simp add: total_is_update_other)
  next
    case ik: True
    have keeps: "\<forall>scen. m_scenario (?ms ! i) = Some scen \<longrightarrow> keeps_counter_total scen"
      using ok ik by (simp add: counter_ok_def)
    have "m_scenario_state ?m' ''counter_total'' = m_scenario_state (?ms ! i) ''counter_total''"
      by (rule update_value_counter_total [OF keeps])
    then have "total_is k (?ms[i := ?m']) t"
      using tot ik True by (simp add: total_is_def storage_get_def)
    moreover have "counter_ok n k (?ms[i := ?m'])"
      using counter_ok_update_self [of n k ?ms ?m'] ok ik by simp
    ultimately show ?thesis using hm by simp
  qed
qed

lemma host_run_counter:
  "counter_ok n k (h_metrics h) \<Longrightarrow> total_is k (h_metrics h) t \<Longrightarrow>
     map snd (entries_of n (host_entries acts h))
       = running_sums t (map fst (entries_of n (host_entries acts h)))
   \<and> set (published_series n (host_batches acts h)) \<subseteq> snd ` set (entries_of n (host_entries acts h))
   \<and> ((\<forall>v\<in>set (map fst (entries_of n (host_entries acts h))). 0 \<le> v) \<longrightarrow>
        sorted (published_series n (host_batches acts h))
        \<and> (\<forall>p\<in>set (published_series n (host_batches acts h)). t \<le> p))"
proof (induction acts arbitrary: h t)
  case Nil
  then show ?case by (simp add: entries_of_def published_series_def)
next
  case (Cons a acts)
  show ?case
  proof (cases a)
    case (Deliver i e now)
    from deliver_counter [OF Cons.prems, of i e now]
    have "counter_ok n k (h_metrics (deliver_event i e now h))"
      "total_is k (h_metrics (deliver_event i e now h)) t" by simp_all
    from Cons.IH [OF this] show ?thesis using Deliver by simp
  next
    case (Tick clock)
    obtain batch h' es where run: "update_metrics_entries clock h = (batch, h', es)"
      by (cases "update_metrics_entries clock h")
    from tick_counter [OF Cons.prems run]
    obtain vs where ok': "counter_ok n k (h_metrics h')" and len: "length vs \<le> 1"
      and ent: "entries_of n es = zip vs (running_sums t vs)"
      and tot': "total_is k (h_metrics h') (t + sum_list vs)"
      and pub: "map_of batch n = None \<or> (\<exists>v. vs = [v] \<and> map_of batch n = Some (t + v))"
      by blast
    note IH = Cons.IH [OF ok' tot']
    have he: "host_entries (a # acts) h = es @ host_entries acts h'"
      and hb: "host_batches (a # acts) h = batch # host_batches acts h'"
      using Tick run by (simp_all add: update_metrics_def)
    have ps: "published_series n (batch # bs) =
        (case map_of batch n of None \<Rightarrow> published_series n bs | Some p \<Rightarrow> p # published_series n bs)" for bs
      by (simp add: published_series_def map_filter_simps split: option.splits)
    show ?thesis
    proof (cases vs)
      case Nil
      then have "map_of batch n = None" using pub by auto
      then show ?thesis using IH Nil ent he hb ps by simp
    next
      case (Cons v ws)
      then have vs: "vs = [v]" using len by simp
      have ent': "entries_of n es = [(v, t + v)]" using ent vs by simp
      show ?thesis
      proof (cases "map_of batch n")
        case None
        then show ?thesis
          using IH vs ent' he hb ps by (auto simp: image_iff)
      next
        case (Some p)
        then have "p = t + v" using pub vs by auto
        then show ?thesis
          using IH vs ent' he hb ps Some by (auto simp: image_iff)
      qed
    qed
  qed
qed

lemma loop_append:
  "update_metrics_loop clock (xs @ ys) ms es =
     (case update_metrics_loop clock xs ms es of
        (None, ms1, es1) \<Rightarrow> update_metrics_loop clock ys ms1 es1
      | (Some e, ms1, es1) \<Rightarrow> (Some e, ms1, es1))"
  by (induction xs arbitrary: ms es) (auto split: prod.splits option.splits sum.splits)

lemma loop_length:
  "update_metrics_loop clock js ms es = (err, ms', es') \<Longrightarrow> length ms' = length ms"
  by (induction js arbitrary: ms es) (auto split: prod.splits option.splits sum.splits)

lemma tick_counter_value:
  assumes ok: "counter_ok n k (h_metrics h)" and tot: "total_is k (h_metrics h) t"
    and run: "update_metrics_entries clock h = (batch, h', es)"
  shows "(tick_value clock k h = None \<longrightarrow>
            map_of batch n = None \<and> entries_of n es = [] \<and> total_is k (h_metrics h') t)
       \<and> (\<forall>v. h_is_running h \<and> tick_error clock h = None \<and> tick_value clock k h = Some v \<longrightarrow>
            map_of batch n = Some (t + v) \<and> entries_of n es = [(v, t + v)]
            \<and> total_is k (h_metrics h') (t + v))"
proof (cases "h_is_running h")
  case False
  then have "batch = []" "h' = h" "es = []"
    using run by (simp_all add: update_metrics_entries_def)
  then show ?thesis using tot False by (simp add: entries_of_def)
next
  case True
  let ?ms = "h_metrics h"
  have k_lt: "k < length ?ms" using ok by (simp add: counter_ok_def)
  have idx: "[0..<length ?ms] = [0..<k] @ k # [Suc k..<length ?ms]"
    using k_lt by (metis le_add1 less_imp_add_positive upt_add_eq_append upt_conv_Cons zero_le
        add.left_neutral less_or_eq_imp_le)
  obtain e1 ms1 es1 where pre: "update_metrics_loop clock [0..<k] ?ms [] = (e1, ms1, es1)"
    by (cases "update_metrics_loop clock [0..<k] ?ms []")
  obtain err ms' es' where loop:
    "update_metrics_loop clock [0..<length ?ms] ?ms [] = (err, ms', es')"
    by (cases "update_metrics_loop clock [0..<length ?ms] ?ms []")
  have res: "h_metrics h' = ms'" "es = es'"
    "batch = (case err of None \<Rightarrow> metrics_data_of es' | Some e \<Rightarrow> [])"
    using run True loop by (auto simp: update_metrics_entries_def split: option.splits)
  have terr: "tick_error clock h = err" using loop by (simp add: tick_error_def)
  have len1: "length ms1 = length ?ms" by (rule loop_length [OF pre])
  from loop_counter [OF ok tot _ _ pre] k_lt
  have ok1: "counter_ok n k ms1" and ent1: "entries_of n es1 = []" and tot1: "total_is k ms1 t"
    by (auto simp: entries_of_def)
  have mb: "metrics_before clock k h = ms1" using pre by (simp add: metrics_before_def)
  let ?m = "ms1 ! k"
  obtain r m1 where uv: "update_value ?m (linked_of ms1 ?m) None (clock k) = (r, m1)"
    by (cases "update_value ?m (linked_of ms1 ?m) None (clock k)")
  have tv: "tick_value clock k h = r" using uv mb by (simp add: tick_value_def)
  have batch_n: "map_of batch n =
      (case err of None \<Rightarrow> (case entries_of n es' of [] \<Rightarrow> None | x # xs \<Rightarrow> Some (snd (last (x # xs))))
       | Some e \<Rightarrow> None)"
    using res map_of_metrics_data [of es' n] by (simp split: option.splits)
  show ?thesis
  proof (cases e1)
    case (Some e)
    then have "err = Some e" "ms' = ms1" "es' = es1"
      using loop pre by (simp_all add: idx loop_append)
    then show ?thesis using res ent1 tot1 terr batch_n by simp
  next
    case None
    then have step: "update_metrics_loop clock (k # [Suc k..<length ?ms]) ms1 es1 = (err, ms', es')"
      using loop pre by (simp add: idx loop_append)
    have cfg1: "m_config m1 = m_config ?m" and scen1: "m_scenario m1 = m_scenario ?m"
      using update_value_config [of ?m "linked_of ms1 ?m" None "clock k"] uv by simp_all
    have keeps: "\<forall>scen. m_scenario ?m = Some scen \<longrightarrow> keeps_counter_total scen"
      using ok1 by (simp add: counter_ok_def)
    have "m_scenario_state m1 ''counter_total'' = m_scenario_state ?m ''counter_total''"
      using update_value_counter_total [OF keeps, of "linked_of ms1 ?m" None "clock k"] uv by simp
    then have totm1: "as_float (storage_get (m_scenario_state m1) ''counter_total'' (PFloat 0)) = Some t"
      using tot1 by (simp add: total_is_def storage_get_def)
    have typ1: "metric_type (m_config m1) = COUNTER" and nm1: "name (m_config m1) = n"
      using ok1 cfg1 by (simp_all add: counter_ok_def)
    have k1: "k < length ms1" using k_lt len1 by simp
    have dist: "distinct [Suc k..<length ?ms]" and k_rest: "k \<notin> set [Suc k..<length ?ms]" by simp_all
    show ?thesis
    proof (cases r)
      case None
      let ?ms2 = "ms1[k := m1]"
      have ok2: "counter_ok n k ?ms2"
        using counter_ok_update_self [of n k ms1 m1] ok1 cfg1 scen1 by simp
      have t2: "total_is k ?ms2 t"
        using totm1 k1 by (simp add: total_is_def)
      have run2: "update_metrics_loop clock [Suc k..<length ?ms] ?ms2 es1 = (err, ms', es')"
        using step uv None by simp
      have bnd: "\<forall>i\<in>set [Suc k..<length ?ms]. i < length ?ms2" using len1 by simp
      from loop_counter [OF ok2 t2 dist bnd run2] k_rest
      have "entries_of n es' = []" and "total_is k ms' t"
        using ent1 by auto
      then show ?thesis using tv None res batch_n by (simp split: option.splits)
    next
      case (Some v)
      let ?m2 = "m1\<lparr>m_scenario_state := storage_set (m_scenario_state m1) ''counter_total'' (PFloat (t + v))\<rparr>"
      let ?ms2 = "ms1[k := ?m2]"
      have pub: "publish_value m1 v = (Inr (t + v), ?m2)"
        by (rule publish_value_counter [OF typ1 totm1])
      have ok2: "counter_ok n k ?ms2"
        using counter_ok_update_self [of n k ms1 ?m2] ok1 cfg1 scen1 by simp
      have t2: "total_is k ?ms2 (t + v)"
        using k1 by (simp add: total_is_def storage_get_def storage_set_def as_float_def)
      have run2: "update_metrics_loop clock [Suc k..<length ?ms] ?ms2 (es1 @ [(n, v, t + v)]) = (err, ms', es')"
        using step uv Some pub nm1 by simp
      have bnd: "\<forall>i\<in>set [Suc k..<length ?ms]. i < length ?ms2" using len1 by simp
      from loop_counter [OF ok2 t2 dist bnd run2] k_rest
      have "entries_of n es' = [(v, t + v)]" and "total_is k ms' (t + v)"
        using ent1 by (auto simp: entries_of_single)
      then show ?thesis using tv Some res batch_n terr by (cases err) simp_all
    qed
  qed
qed

lemma tick_batch_entries:
  assumes run: "update_metrics_entries clock h = (batch, h', es)"
    and noerr: "h_is_running h \<longrightarrow> tick_error clock h = None"
  shows "map_of batch n = (case entries_of n es of [] \<Rightarrow> None | x # xs \<Rightarrow> Some (snd (last (x # xs))))"
proof (cases "h_is_running h")
  case False
  then show ?thesis using run by (simp add: update_metrics_entries_def entries_of_def)
next
  case True
  then have "fst (update_metrics_loop clock [0..<length (h_metrics h)] (h_metrics h) []) = None"
    using noerr by (simp add: tick_error_def)
  then have "batch = metrics_data_of es"
    using run True by (auto simp: update_metrics_entries_def split: prod.splits option.splits)
  then show ?thesis by (simp add: map_of_metrics_data)
qed

lemma host_run_published:
  "counter_ok n k (h_metrics h) \<Longrightarrow> total_is k (h_metrics h) t \<Longrightarrow> host_errors acts h = [] \<Longrightarrow>
     published_series n (host_batches acts h)
       = running_sums t (map fst (entries_of n (host_entries acts h)))"
proof (induction acts arbitrary: h t)
  case Nil
  then show ?case by (simp add: entries_of_def published_series_def)
next
  case (Cons a acts)
  show ?case
  proof (cases a)
    case (Deliver i e now)
    from deliver_counter [OF Cons.prems(1,2), of i e now]
    have "counter_ok n k (h_metrics (deliver_event i e now h))"
      "total_is k (h_metrics (deliver_event i e now h)) t" by simp_all
    from Cons.IH [OF this] Cons.prems(3) show ?thesis using Deliver by simp
  next
    case (Tick clock)
    obtain batch h' es where run: "update_metrics_entries clock h = (batch, h', es)"
      by (cases "update_metrics_entries clock h")
    have um: "update_metrics clock h = (batch, h')" using run by (simp add: update_metrics_def)
    have noerr: "h_is_running h \<longrightarrow> tick_error clock h = None"
      and rest: "host_errors acts h' = []"
      using Cons.prems(3) Tick um by (auto split: option.splits if_splits)
    from tick_counter [OF Cons.prems(1,2) run]
    obtain vs where ok': "counter_ok n k (h_metrics h')" and len: "length vs \<le> 1"
      and ent: "entries_of n es = zip vs (running_sums t vs)"
      and tot': "total_is k (h_metrics h') (t + sum_list vs)"
      by blast
    note IH = Cons.IH [OF ok' tot' rest]
    note b = tick_batch_entries [OF run noerr, of n]
    have he: "host_entries (a # acts) h = es @ host_entries acts h'"
      and hb: "host_batches (a # acts) h = batch # host_batches acts h'"
      using Tick run by (simp_all add: update_metrics_def)
    have ps: "published_series n (batch # bs) =
        (case map_of batch n of None \<Rightarrow> published_series n bs | Some p \<Rightarrow> p # published_series n bs)" for bs
      by (simp add: published_series_def map_filter_simps split: option.splits)
    show ?thesis
    proof (cases vs)
      case Nil
      then show ?thesis using IH b ent he hb ps by simp
    next
      case (Cons v ws)
      then have vs: "vs = [v]" using len by simp
      then show ?thesis using IH b ent he hb ps by simp
    qed
  qed
qed

text \<open>
  Claim C3. For the counter \<open>n\<close> of a host (its scenario leaving \<open>counter_total\<close> alone, its
  stored total being the number \<open>t\<close>, \<open>0\<close> when absent): for a counter, what is published is
  the stored \<open>counter_total\<close> plus the value of the tick, and that sum is stored. On a tick of
  a running host that no exception ends, when \<open>update_value\<close> gives the counter the value \<open>v\<close>
  the batch holds \<open>t + v\<close> for \<open>n\<close> and \<open>t + v\<close> is the stored total; when it gives none, the
  batch does not hold \<open>n\<close> and the total stays \<open>t\<close>. A batch that holds \<open>n\<close> holds \<open>t\<close> plus the
  value of the tick. Over any sequence of ticks and delivered events, the totals of the ticks
  of \<open>n\<close> are the running sums of the values of its ticks and every published value is one of
  them; when no exception ends a tick, the published series is the series of these running
  sums; and when no value of a tick is negative the published series is non-decreasing. A
  negative value is added like any other: the total, and what is published, decreases.
\<close>

theorem counter_total_accumulates:
  assumes ok: "counter_ok n k (h_metrics h)" and tot: "total_is k (h_metrics h) t"
  shows "(\<forall>(m::EmulatedMetric) v t'. metric_type (m_config m) = COUNTER
             \<and> as_float (storage_get (m_scenario_state m) ''counter_total'' (PFloat 0)) = Some t' \<longrightarrow>
           publish_value m v =
             (Inr (t' + v),
              m\<lparr>m_scenario_state := storage_set (m_scenario_state m) ''counter_total'' (PFloat (t' + v))\<rparr>))
       \<and> (\<forall>clock v. h_is_running h \<and> tick_error clock h = None \<and> tick_value clock k h = Some v \<longrightarrow>
             map_of (fst (update_metrics clock h)) n = Some (t + v)
             \<and> total_is k (h_metrics (snd (update_metrics clock h))) (t + v)
             \<and> entries_of n (snd (snd (update_metrics_entries clock h))) = [(v, t + v)])
       \<and> (\<forall>clock. tick_value clock k h = None \<longrightarrow>
             map_of (fst (update_metrics clock h)) n = None
             \<and> total_is k (h_metrics (snd (update_metrics clock h))) t)
       \<and> (\<forall>clock batch h' p. update_metrics clock h = (batch, h') \<and> map_of batch n = Some p \<longrightarrow>
             total_is k (h_metrics h') p
             \<and> (\<exists>v. entries_of n (snd (snd (update_metrics_entries clock h))) = [(v, p)] \<and> p = t + v))
       \<and> map snd (entries_of n (host_entries acts h))
           = running_sums t (map fst (entries_of n (host_entries acts h)))
       \<and> set (published_series n (host_batches acts h)) \<subseteq> snd ` set (entries_of n (host_entries acts h))
       \<and> (host_errors acts h = [] \<longrightarrow>
             published_series n (host_batches acts h)
               = running_sums t (map fst (entries_of n (host_entries acts h))))
       \<and> ((\<forall>v\<in>set (map fst (entries_of n (host_entries acts h))). 0 \<le> v) \<longrightarrow>
             sorted (published_series n (host_batches acts h)))"
proof (intro conjI allI impI)
  fix m :: EmulatedMetric and v t'
  assume "metric_type (m_config m) = COUNTER
      \<and> as_float (storage_get (m_scenario_state m) ''counter_total'' (PFloat 0)) = Some t'"
  then show "publish_value m v =
      (Inr (t' + v),
       m\<lparr>m_scenario_state := storage_set (m_scenario_state m) ''counter_total'' (PFloat (t' + v))\<rparr>)"
    by (simp add: publish_value_counter)
next
  fix clock v
  assume a: "h_is_running h \<and> tick_error clock h = None \<and> tick_value clock k h = Some v"
  obtain batch h' es where run: "update_metrics_entries clock h = (batch, h', es)"
    by (cases "update_metrics_entries clock h")
  from tick_counter_value [OF ok tot run] a
  have "map_of batch n = Some (t + v) \<and> entries_of n es = [(v, t + v)]
            \<and> total_is k (h_metrics h') (t + v)" by blast
  then show "map_of (fst (update_metrics clock h)) n = Some (t + v)"
    and "total_is k (h_metrics (snd (update_metrics clock h))) (t + v)"
    and "entries_of n (snd (snd (update_metrics_entries clock h))) = [(v, t + v)]"
    using run by (simp_all add: update_metrics_def)
next
  fix clock
  assume a: "tick_value clock k h = None"
  obtain batch h' es where run: "update_metrics_entries clock h = (batch, h', es)"
    by (cases "update_metrics_entries clock h")
  from tick_counter_value [OF ok tot run] a
  have "map_of batch n = None \<and> entries_of n es = [] \<and> total_is k (h_metrics h') t" by blast
  then show "map_of (fst (update_metrics clock h)) n = None"
    and "total_is k (h_metrics (snd (update_metrics clock h))) t"
    using run by (simp_all add: update_metrics_def)
next
  fix clock batch h' p
  assume a: "update_metrics clock h = (batch, h') \<and> map_of batch n = Some p"
  obtain es where run: "update_metrics_entries clock h = (batch, h', es)"
    using a by (cases "update_metrics_entries clock h") (auto simp: update_metrics_def)
  from tick_counter [OF ok tot run] a
  obtain v where "entries_of n es = [(v, t + v)]" "p = t + v" "total_is k (h_metrics h') (t + v)"
    by auto
  then show "total_is k (h_metrics h') p"
    and "\<exists>v. entries_of n (snd (snd (update_metrics_entries clock h))) = [(v, p)] \<and> p = t + v"
    using run by auto
next
  show "map snd (entries_of n (host_entries acts h))
           = running_sums t (map fst (entries_of n (host_entries acts h)))"
    and "set (published_series n (host_batches acts h)) \<subseteq> snd ` set (entries_of n (host_entries acts h))"
    using host_run_counter [OF ok tot, of acts] by blast+
next
  assume "host_errors acts h = []"
  then show "published_series n (host_batches acts h)
               = running_sums t (map fst (entries_of n (host_entries acts h)))"
    by (rule host_run_published [OF ok tot])
next
  assume "\<forall>v\<in>set (map fst (entries_of n (host_entries acts h))). 0 \<le> v"
  then show "sorted (published_series n (host_batches acts h))"
    using host_run_counter [OF ok tot, of acts] by blast
qed

lemma keeps_const: "keeps_counter_total (const_scenario x)"
  by (simp add: keeps_counter_total_def const_scenario_def)

lemmas host_eval =
  update_metrics_def update_metrics_entries_def update_value_def compute_value_def
  update_value_by_scenario_def build_metric_context_def publish_value_def linked_of_def
  metrics_data_of_def counter_host_def new_metric_def gauge_config_def const_scenario_def
  VALUE_DECIMAL_PLACES_def py_round_def round_half_even_def storage_get_def storage_set_def
  as_float_def List.map_filter_def Let_def

lemmas tick_eval = host_eval tick_value_def tick_error_def metrics_before_def

lemma counter_host_batches_up:
  "host_batches [Tick (\<lambda>i. 1000), Tick (\<lambda>i. 1020)] (counter_host 5)
     = [[(''requests'', 5)], [(''requests'', 10)]]"
  by (simp add: host_eval)

lemma counter_host_batches_down:
  "host_batches [Tick (\<lambda>i. 1000), Tick (\<lambda>i. 1020)] (counter_host (- 3))
     = [[(''requests'', - 3)], [(''requests'', - 6)]]"
  by (simp add: host_eval)

theorem counter_total_accumulates_witness:
  "tick_value (\<lambda>i. 1000) 0 (counter_host 5) = Some 5
   \<and> map_of (fst (update_metrics (\<lambda>i. 1000) (counter_host 5))) ''requests'' = Some 5
   \<and> host_batches [Tick (\<lambda>i. 1000), Tick (\<lambda>i. 1020)] (counter_host 5)
     = [[(''requests'', 5)], [(''requests'', 10)]]
   \<and> sorted (published_series ''requests''
        (host_batches [Tick (\<lambda>i. 1000), Tick (\<lambda>i. 1020)] (counter_host 5)))
   \<and> host_batches [Tick (\<lambda>i. 1000), Tick (\<lambda>i. 1020)] (counter_host (- 3))
     = [[(''requests'', - 3)], [(''requests'', - 6)]]
   \<and> map snd (entries_of ''requests''
        (host_entries [Tick (\<lambda>i. 1000), Tick (\<lambda>i. 1020)] (counter_host (- 3))))
     = running_sums 0 [- 3, - 3]"
proof -
  let ?acts = "[Tick (\<lambda>i. 1000), Tick (\<lambda>i. 1020)]"
  have ok: "counter_ok ''requests'' 0 (h_metrics (counter_host x))" for x
    by (simp add: counter_ok_def counter_host_def new_metric_def gauge_config_def keeps_const)
  have tot: "total_is 0 (h_metrics (counter_host x)) 0" for x
    by (simp add: total_is_def counter_host_def new_metric_def storage_get_def as_float_def)
  have e5: "host_entries ?acts (counter_host 5) = [(''requests'', 5, 5), (''requests'', 5, 10)]"
    by (simp add: host_eval)
  have e3: "host_entries ?acts (counter_host (- 3)) = [(''requests'', - 3, - 3), (''requests'', - 3, - 6)]"
    by (simp add: host_eval)
  have tv: "tick_value (\<lambda>i. 1000) 0 (counter_host 5) = Some 5"
    by (simp add: tick_eval)
  have pre: "h_is_running (counter_host 5) \<and> tick_error (\<lambda>i. 1000) (counter_host 5) = None
      \<and> tick_value (\<lambda>i. 1000) 0 (counter_host 5) = Some 5"
    by (simp add: tick_eval)
  have "map_of (fst (update_metrics (\<lambda>i. 1000) (counter_host 5))) ''requests'' = Some (0 + 5)"
    using counter_total_accumulates [OF ok tot, of 5 ?acts,
          THEN conjunct2, THEN conjunct1, rule_format, OF pre]
    by (rule conjunct1)
  then have pub: "map_of (fst (update_metrics (\<lambda>i. 1000) (counter_host 5))) ''requests'' = Some 5"
    by simp
  have "(\<forall>v\<in>set (map fst (entries_of ''requests'' (host_entries ?acts (counter_host 5)))). 0 \<le> v)
      \<longrightarrow> sorted (published_series ''requests'' (host_batches ?acts (counter_host 5)))"
    by (rule counter_total_accumulates [OF ok tot, of 5 ?acts,
          THEN conjunct2, THEN conjunct2, THEN conjunct2, THEN conjunct2, THEN conjunct2,
          THEN conjunct2, THEN conjunct2])
  then have "sorted (published_series ''requests'' (host_batches ?acts (counter_host 5)))"
    unfolding e5 by (simp add: entries_of_def)
  moreover have "map snd (entries_of ''requests'' (host_entries ?acts (counter_host (- 3))))
     = running_sums 0 (map fst (entries_of ''requests'' (host_entries ?acts (counter_host (- 3)))))"
    by (rule counter_total_accumulates [OF ok tot, of "- 3" ?acts,
          THEN conjunct2, THEN conjunct2, THEN conjunct2, THEN conjunct2, THEN conjunct1])
  then have "map snd (entries_of ''requests'' (host_entries ?acts (counter_host (- 3))))
     = running_sums 0 [- 3, - 3]"
    unfolding e3 by (simp add: entries_of_def)
  ultimately show ?thesis using tv pub counter_host_batches_up counter_host_batches_down by (intro conjI)
qed

section \<open>The mixer\<close>



















end
